theory Spec2Isabelle
  imports Complex_Main
begin

section \<open>The mesh builder of \<open>obj_generator.py\<close>\<close>

text \<open>
  A shallow embedding of class \<open>ProbeOBJGenerator\<close>. The builder stores coordinates
  and never computes with them, so it is polymorphic in the type of a coordinate. Where
  geometry is computed, coordinates are real numbers: rounding of the floating-point
  operations, infinities and NaN are outside the model. Where text is written, they are
  floats with a signed zero (type \<open>py_float\<close> below). Vertex indices are Python integers
  (\<open>int\<close>). The object is mutated in place by its methods; the model passes the
  generator explicitly and returns the updated one. A method that can raise returns the
  exception (if any) together with the generator as the exception leaves it.
\<close>

datatype py_error = IndexError | ValueError | TypeError | OSError

type_synonym vertex = "real \<times> real \<times> real"

record 'c ProbeOBJGenerator =
  vertices :: "('c \<times> 'c \<times> 'c) list"
  faces :: "int list list"
  vertex_count :: int

definition new_generator :: "'c ProbeOBJGenerator" where
  "new_generator = \<lparr>vertices = [], faces = [], vertex_count = 0\<rparr>"

definition reset :: "'c ProbeOBJGenerator \<Rightarrow> 'c ProbeOBJGenerator" where
  "reset g = g\<lparr>vertices := [], faces := [], vertex_count := 0\<rparr>"

definition add_vertex ::
  "'c \<Rightarrow> 'c \<Rightarrow> 'c \<Rightarrow> 'c ProbeOBJGenerator \<Rightarrow> int \<times> 'c ProbeOBJGenerator" where
  "add_vertex x y z g =
     (let g' = g\<lparr>vertices := vertices g @ [(x, y, z)], vertex_count := vertex_count g + 1\<rparr>
      in (vertex_count g', g'))"

definition add_face :: "int list \<Rightarrow> 'c ProbeOBJGenerator \<Rightarrow> 'c ProbeOBJGenerator" where
  "add_face vertex_indices g = g\<lparr>faces := faces g @ [vertex_indices]\<rparr>"

text \<open>
  The loop of \<open>extrude_contour\<close>, with the two index lists it appends to as
  accumulators.
\<close>

fun extrude_loop ::
  "('c \<times> 'c) list \<Rightarrow> 'c \<Rightarrow> 'c \<Rightarrow> int list \<Rightarrow> int list \<Rightarrow> 'c ProbeOBJGenerator
     \<Rightarrow> (int list \<times> int list) \<times> 'c ProbeOBJGenerator" where
  "extrude_loop [] z_bottom z_top bottom_indices top_indices g =
     ((bottom_indices, top_indices), g)"
| "extrude_loop ((x, y) # points) z_bottom z_top bottom_indices top_indices g =
     (let (bottom_idx, g1) = add_vertex x y z_bottom g;
          (top_idx, g2) = add_vertex x y z_top g1
      in extrude_loop points z_bottom z_top
           (bottom_indices @ [bottom_idx]) (top_indices @ [top_idx]) g2)"

definition extrude_contour ::
  "('c \<times> 'c) list \<Rightarrow> 'c \<Rightarrow> 'c \<Rightarrow> 'c ProbeOBJGenerator
     \<Rightarrow> (int list \<times> int list) \<times> 'c ProbeOBJGenerator" where
  "extrude_contour contour_points z_bottom z_top g =
     extrude_loop contour_points z_bottom z_top [] [] g"

text \<open>
  The side-face loop of \<open>create_faces_from_contour\<close> over \<open>range(n_points)\<close>. A list
  read out of range raises \<open>IndexError\<close>; the faces added before stay in the generator.
\<close>

fun side_faces ::
  "int list \<Rightarrow> int list \<Rightarrow> nat list \<Rightarrow> 'c ProbeOBJGenerator
     \<Rightarrow> py_error option \<times> 'c ProbeOBJGenerator" where
  "side_faces bottom_indices top_indices [] g = (None, g)"
| "side_faces bottom_indices top_indices (i # rest) g =
     (let n_points = length bottom_indices;
          next_i = (i + 1) mod n_points
      in if i < length bottom_indices \<and> next_i < length bottom_indices
            \<and> next_i < length top_indices \<and> i < length top_indices
         then side_faces bottom_indices top_indices rest
                (add_face [bottom_indices ! i, bottom_indices ! next_i,
                           top_indices ! next_i, top_indices ! i] g)
         else (Some IndexError, g))"

definition create_faces_from_contour ::
  "int list \<Rightarrow> int list \<Rightarrow> 'c ProbeOBJGenerator \<Rightarrow> py_error option \<times> 'c ProbeOBJGenerator" where
  "create_faces_from_contour bottom_indices top_indices g =
     (let n_points = length bottom_indices;
          g1 = (if n_points \<ge> 3 then add_face (rev bottom_indices) g else g);
          g2 = (if n_points \<ge> 3 then add_face top_indices g1 else g1)
      in side_faces bottom_indices top_indices [0..<n_points] g2)"

section \<open>Contact geometry\<close>

text \<open>
  \<open>Probe\<close> is a class of the probeinterface library; the model keeps the attributes the
  generator reads. \<open>contact_positions\<close> is a numpy array of shape \<open>(n, 2)\<close> or
  \<open>(n, 3)\<close>, or \<open>None\<close> on a probe without contacts. The planar contour is \<open>None\<close>
  or an array of points with as many columns as the probe has dimensions: two, or three
  on a 3D probe. \<open>contact_shapes\<close>, \<open>contact_shape_params\<close> and \<open>model_name\<close> are
  read with \<open>getattr\<close> and a default; \<open>None\<close> stands for an absent attribute. The
  attribute \<open>model_name\<close>, when present, holds a string or \<open>None\<close> (on a probe
  without a name): \<open>Some None\<close> in the model. A parameter dictionary is a map from key
  to number.
\<close>

datatype contact_array =
  Positions2D "(real \<times> real) list"
| Positions3D "(real \<times> real \<times> real) list"

datatype contour_array =
  Contour2D "(real \<times> real) list"
| Contour3D "(real \<times> real \<times> real) list"

record Probe =
  ndim :: nat
  contact_positions :: "contact_array option"
  probe_planar_contour :: "contour_array option"
  contact_shapes :: "string list option"
  contact_shape_params :: "(string \<rightharpoonup> real) list option"
  model_name :: "string option option"

fun array_rows :: "contact_array \<Rightarrow> real list list" where
  "array_rows (Positions2D ps) = map (\<lambda>(x, y). [x, y]) ps"
| "array_rows (Positions3D ps) = map (\<lambda>(x, y, z). [x, y, z]) ps"

text \<open>\<open>np.column_stack([positions, np.zeros(len(positions))])\<close>: one more column of zeros.\<close>

definition column_stack_zeros :: "real list list \<Rightarrow> real list list" where
  "column_stack_zeros positions = map (\<lambda>row. row @ [0]) positions"

text \<open>\<open>np.linspace(start, stop, num, endpoint=False)\<close>.\<close>

definition linspace_open :: "real \<Rightarrow> real \<Rightarrow> nat \<Rightarrow> real list" where
  "linspace_open start stop num =
     map (\<lambda>k. real k * ((stop - start) / real num) + start) [0..<num]"

text \<open>\<open>params.get(key, default)\<close>.\<close>

definition dict_get :: "(string \<rightharpoonup> real) \<Rightarrow> string \<Rightarrow> real \<Rightarrow> real" where
  "dict_get params key dflt = (case params key of Some v \<Rightarrow> v | None \<Rightarrow> dflt)"

fun circle_loop ::
  "real list \<Rightarrow> real \<Rightarrow> real \<Rightarrow> real \<Rightarrow> real \<Rightarrow> real \<Rightarrow> int list \<Rightarrow> int list
     \<Rightarrow> real ProbeOBJGenerator \<Rightarrow> (int list \<times> int list) \<times> real ProbeOBJGenerator" where
  "circle_loop [] x y z radius height bottom_indices top_indices g =
     ((bottom_indices, top_indices), g)"
| "circle_loop (angle # angles) x y z radius height bottom_indices top_indices g =
     (let cx = x + radius * cos angle;
          cy = y + radius * sin angle;
          (bottom_idx, g1) = add_vertex cx cy (z - height / 2) g;
          (top_idx, g2) = add_vertex cx cy (z + height / 2) g1
      in circle_loop angles x y z radius height
           (bottom_indices @ [bottom_idx]) (top_indices @ [top_idx]) g2)"

text \<open>
  \<open>x, y, z = position\<close> raises \<open>ValueError\<close> unless the row has three entries.
\<close>

definition add_circular_contact ::
  "real list \<Rightarrow> real \<Rightarrow> real \<Rightarrow> nat \<Rightarrow> real ProbeOBJGenerator
     \<Rightarrow> py_error option \<times> real ProbeOBJGenerator" where
  "add_circular_contact position radius height n_segments g =
     (case position of
        [x, y, z] \<Rightarrow>
          (let angles = linspace_open 0 (2 * pi) n_segments;
               ((bottom_indices, top_indices), g1) =
                  circle_loop angles x y z radius height [] [] g
           in create_faces_from_contour bottom_indices top_indices g1)
      | _ \<Rightarrow> (Some ValueError, g))"

text \<open>
  The corner loop of \<open>_add_rectangular_contact\<close> has the body of the loop of
  \<open>extrude_contour\<close>, between \<open>z - thickness / 2\<close> and \<open>z + thickness / 2\<close>.
\<close>

definition add_rectangular_contact ::
  "real list \<Rightarrow> real \<Rightarrow> real \<Rightarrow> real \<Rightarrow> real ProbeOBJGenerator
     \<Rightarrow> py_error option \<times> real ProbeOBJGenerator" where
  "add_rectangular_contact position width height thickness g =
     (case position of
        [x, y, z] \<Rightarrow>
          (let corners = [(x - width / 2, y - height / 2),
                          (x + width / 2, y - height / 2),
                          (x + width / 2, y + height / 2),
                          (x - width / 2, y + height / 2)];
               ((bottom_indices, top_indices), g1) =
                  extrude_loop corners (z - thickness / 2) (z + thickness / 2) [] [] g
           in create_faces_from_contour bottom_indices top_indices g1)
      | _ \<Rightarrow> (Some ValueError, g))"

text \<open>
  The loop of \<open>add_contact_geometry\<close> over \<open>enumerate(positions_3d)\<close>. An exception
  of a callee ends the loop. A shape that is neither \<open>circle\<close> nor \<open>square\<close> nor
  \<open>rect\<close> matches no branch.
\<close>

fun contact_loop ::
  "(nat \<times> real list) list \<Rightarrow> string list \<Rightarrow> (string \<rightharpoonup> real) list \<Rightarrow> real
     \<Rightarrow> real ProbeOBJGenerator \<Rightarrow> py_error option \<times> real ProbeOBJGenerator" where
  "contact_loop [] shapes shape_params contact_height g = (None, g)"
| "contact_loop ((i, pos) # rest) shapes shape_params contact_height g =
     (let shape = (if i < length shapes then shapes ! i else ''circle'');
          params = (if i < length shape_params then shape_params ! i
                    else [''radius'' \<mapsto> 10])
      in if shape = ''circle'' then
           (let radius = dict_get params ''radius'' 10
            in case add_circular_contact pos radius contact_height 8 g of
                 (Some e, g') \<Rightarrow> (Some e, g')
               | (None, g') \<Rightarrow> contact_loop rest shapes shape_params contact_height g')
         else if shape \<in> set [''square'', ''rect''] then
           (let width = dict_get params ''width'' 20;
                height = dict_get params ''height'' width
            in case add_rectangular_contact pos width height contact_height g of
                 (Some e, g') \<Rightarrow> (Some e, g')
               | (None, g') \<Rightarrow> contact_loop rest shapes shape_params contact_height g')
         else contact_loop rest shapes shape_params contact_height g)"

text \<open>
  \<open>len(positions)\<close> is evaluated for the defaults of \<open>getattr\<close> whether or not the
  attribute is there, and raises \<open>TypeError\<close> on \<open>None\<close>.
\<close>

definition add_contact_geometry ::
  "Probe \<Rightarrow> real \<Rightarrow> real ProbeOBJGenerator \<Rightarrow> py_error option \<times> real ProbeOBJGenerator" where
  "add_contact_geometry probe contact_height g =
     (case contact_positions probe of
        None \<Rightarrow> (Some TypeError, g)
      | Some arr \<Rightarrow>
          (let positions = array_rows arr;
               shapes = (case contact_shapes probe of
                           Some s \<Rightarrow> s
                         | None \<Rightarrow> replicate (length positions) ''circle'');
               shape_params = (case contact_shape_params probe of
                                 Some ps \<Rightarrow> ps
                               | None \<Rightarrow> replicate (length positions) [''radius'' \<mapsto> 10]);
               positions_3d = (if ndim probe = 2 then column_stack_zeros positions
                               else positions)
           in contact_loop (List.enumerate 0 positions_3d) shapes shape_params
                contact_height g))"

section \<open>Mesh generation\<close>

text \<open>
  \<open>np.min(a, axis=0)\<close> and \<open>np.max(a, axis=0)\<close>: the minimum and maximum of every
  column; \<open>ValueError\<close> on an array without rows.
\<close>

definition np_min_axis0 :: "real list list \<Rightarrow> py_error + real list" where
  "np_min_axis0 a = (case a of [] \<Rightarrow> Inl ValueError | r # rs \<Rightarrow> Inr (foldl (map2 min) r rs))"

definition np_max_axis0 :: "real list list \<Rightarrow> py_error + real list" where
  "np_max_axis0 a = (case a of [] \<Rightarrow> Inl ValueError | r # rs \<Rightarrow> Inr (foldl (map2 max) r rs))"

text \<open>
  The body of the \<open>try\<close> block of \<open>_generate_basic_probe_shape\<close>. On a probe whose
  positions are \<open>None\<close>, \<open>len(positions)\<close> raises \<open>TypeError\<close> (two dimensions), or
  \<open>np.min\<close> returns \<open>None\<close> and \<open>min_coords[0]\<close> raises \<open>TypeError\<close>.
\<close>

definition basic_probe_shape_body ::
  "Probe \<Rightarrow> real \<Rightarrow> real ProbeOBJGenerator \<Rightarrow> py_error option \<times> real ProbeOBJGenerator" where
  "basic_probe_shape_body probe probe_thickness g =
     (case contact_positions probe of
        None \<Rightarrow> (Some TypeError, g)
      | Some arr \<Rightarrow>
          (let positions = array_rows arr;
               positions_3d = (if ndim probe = 2 then column_stack_zeros positions
                               else positions)
           in case np_min_axis0 positions_3d of
                Inl e \<Rightarrow> (Some e, g)
              | Inr min_coords \<Rightarrow>
                 (case np_max_axis0 positions_3d of
                    Inl e \<Rightarrow> (Some e, g)
                  | Inr max_coords \<Rightarrow>
                     if length min_coords < 2 \<or> length max_coords < 2
                     then (Some IndexError, g)
                     else
                      (let margin = 30;
                           x_min = min_coords ! 0 - margin;
                           x_max = max_coords ! 0 + margin;
                           y_min = min_coords ! 1 - margin;
                           y_max = max_coords ! 1 + margin;
                           basic_contour = [(x_min, y_max), (x_min, y_min),
                                            (x_max, y_min), (x_max, y_max)];
                           ((bottom_indices, top_indices), g1) =
                              extrude_contour basic_contour
                                (- probe_thickness / 2) (probe_thickness / 2) g
                       in create_faces_from_contour bottom_indices top_indices g1))))"

text \<open>\<open>except Exception\<close>: the error is printed and the result is \<open>False\<close>.\<close>

definition generate_basic_probe_shape ::
  "Probe \<Rightarrow> real \<Rightarrow> real \<Rightarrow> bool \<Rightarrow> real ProbeOBJGenerator \<Rightarrow> bool \<times> real ProbeOBJGenerator" where
  "generate_basic_probe_shape probe probe_thickness contact_height add_contacts g =
     (case basic_probe_shape_body probe probe_thickness g of
        (None, g') \<Rightarrow> (True, g')
      | (Some e, g') \<Rightarrow> (False, g'))"

text \<open>\<open>len(contour)\<close>: the number of rows.\<close>

fun contour_len :: "contour_array \<Rightarrow> nat" where
  "contour_len (Contour2D points) = length points"
| "contour_len (Contour3D points) = length points"

text \<open>
  \<open>extrude_contour\<close> on the array of a probe. On a row of three entries the unpacking
  \<open>x, y = point\<close> raises \<open>ValueError\<close>, at the first point and so before any vertex
  is added.
\<close>

fun extrude_contour_array ::
  "contour_array \<Rightarrow> real \<Rightarrow> real \<Rightarrow> real ProbeOBJGenerator
     \<Rightarrow> py_error + ((int list \<times> int list) \<times> real ProbeOBJGenerator)" where
  "extrude_contour_array (Contour2D points) z_bottom z_top g =
     Inr (extrude_contour points z_bottom z_top g)"
| "extrude_contour_array (Contour3D []) z_bottom z_top g = Inr (([], []), g)"
| "extrude_contour_array (Contour3D (point # points)) z_bottom z_top g = Inl ValueError"

definition generate_probe_mesh ::
  "Probe \<Rightarrow> real \<Rightarrow> real \<Rightarrow> bool \<Rightarrow> real ProbeOBJGenerator \<Rightarrow> bool \<times> real ProbeOBJGenerator" where
  "generate_probe_mesh probe probe_thickness contact_height add_contacts g =
     (let g0 = reset g;
          contour = probe_planar_contour probe
      in if contour = None \<or> contour_len (the contour) < 3
         then generate_basic_probe_shape probe probe_thickness contact_height False g0
         else
          (case extrude_contour_array (the contour)
                  (- probe_thickness / 2) (probe_thickness / 2) g0 of
             Inl e \<Rightarrow> (False, g0)
           | Inr ((bottom_indices, top_indices), g1) \<Rightarrow>
               (case create_faces_from_contour bottom_indices top_indices g1 of
                  (None, g2) \<Rightarrow> (True, g2)
                | (Some e, g2) \<Rightarrow> (False, g2))))"

section \<open>Serialisation\<close>

text \<open>
  \<open>str\<close> of a Python integer: its decimal digits, after a minus sign when negative.
\<close>

definition digit_char :: "nat \<Rightarrow> char" where
  "digit_char d = char_of (48 + d)"

fun str_nat :: "nat \<Rightarrow> string" where
  "str_nat n = (if n < 10 then [digit_char n] else str_nat (n div 10) @ [digit_char (n mod 10)])"

declare str_nat.simps [simp del]

definition str_int :: "int \<Rightarrow> string" where
  "str_int i = (if i < 0 then CHR ''-'' # str_nat (nat (- i)) else str_nat (nat i))"

text \<open>
  A finite Python float: a real number (the exact value of the float), or the negative
  zero \<open>-0.0\<close>, which has no counterpart among the reals. \<open>PyFloat 0\<close> is the zero
  \<open>0.0\<close>. Infinities and NaN are outside the model.
\<close>

datatype py_float = PyFloat real | NegativeZero

fun float_value :: "py_float \<Rightarrow> real" where
  "float_value (PyFloat x) = x"
| "float_value NegativeZero = 0"

text \<open>
  The format \<open>:.6f\<close>: the number rounded to six decimals (the exact value of the float
  rounded to the nearest, a tie to the even digit), with a minus sign for every float
  whose sign bit is set: every negative number, also one that rounds to zero, and the
  negative zero.
\<close>

definition round_half_even :: "real \<Rightarrow> int" where
  "round_half_even x =
     (let f = \<lfloor>x\<rfloor>; r = x - of_int f
      in if r < 1 / 2 then f else if 1 / 2 < r then f + 1 else if even f then f else f + 1)"

definition zfill :: "nat \<Rightarrow> string \<Rightarrow> string" where
  "zfill w s = replicate (w - length s) CHR ''0'' @ s"

definition format_6f :: "py_float \<Rightarrow> string" where
  "format_6f v =
     (let x = float_value v;
          n = nat (round_half_even (\<bar>x\<bar> * 1000000))
      in (if x < 0 \<or> v = NegativeZero then ''-'' else []) @ str_nat (n div 1000000) @ ''.''
           @ zfill 6 (str_nat (n mod 1000000)))"

definition newline :: char where
  "newline = CHR 0x0A"

text \<open>\<open>sep.join(words)\<close>.\<close>

fun join :: "string \<Rightarrow> string list \<Rightarrow> string" where
  "join sep [] = []"
| "join sep [w] = w"
| "join sep (w # v # ws) = w @ sep @ join sep (v # ws)"

definition vertex_line :: "py_float \<times> py_float \<times> py_float \<Rightarrow> string" where
  "vertex_line v =
     (case v of (x, y, z) \<Rightarrow>
        ''v '' @ format_6f x @ '' '' @ format_6f y @ '' '' @ format_6f z @ [newline])"

definition face_line :: "int list \<Rightarrow> string" where
  "face_line face = ''f '' @ join '' '' (map str_int face) @ [newline]"

definition header_text :: "py_float ProbeOBJGenerator \<Rightarrow> string \<Rightarrow> string" where
  "header_text g probe_name =
     ''# Probe: '' @ probe_name @ [newline]
     @ ''# Generated by ProbeOBJGenerator'' @ [newline]
     @ ''# Vertices: '' @ str_nat (length (vertices g)) @ [newline]
     @ ''# Faces: '' @ str_nat (length (faces g)) @ [newline, newline]"

text \<open>What \<open>save_obj\<close> writes, one \<open>f.write\<close> after the other.\<close>

definition obj_text :: "py_float ProbeOBJGenerator \<Rightarrow> string \<Rightarrow> string" where
  "obj_text g probe_name =
     header_text g probe_name
     @ concat (map vertex_line (vertices g))
     @ [newline]
     @ concat (map face_line (faces g))"

text \<open>
  The file system: the content of every file, and the paths \<open>open(filepath, "w")\<close>
  succeeds on. A failure of \<open>open\<close> is caught by \<open>save_obj\<close>, which returns \<open>False\<close>;
  a failure in the middle of the writes is not modelled.
\<close>

record file_system =
  file_content :: "string \<rightharpoonup> string"
  can_open :: "string \<Rightarrow> bool"

definition save_obj ::
  "file_system \<Rightarrow> string \<Rightarrow> string \<Rightarrow> py_float ProbeOBJGenerator \<Rightarrow> bool \<times> file_system" where
  "save_obj fs filepath probe_name g =
     (if can_open fs filepath
      then (True, fs\<lparr>file_content := (file_content fs)(filepath \<mapsto> obj_text g probe_name)\<rparr>)
      else (False, fs))"

text \<open>A \<open>pathlib.Path\<close>, with the stem the library computes for it.\<close>

record Path =
  path_string :: string
  stem :: string

text \<open>
  The mesh the geometry computed, as \<open>save_obj\<close> finds it: every coordinate is the
  float of the computed value. The sign of a computed zero is outside the model, as
  rounding is: at thickness \<open>0.0\<close> the code gets the bottom plane \<open>-0.0\<close> from
  \<open>-probe_thickness / 2\<close>.
\<close>

definition float_mesh :: "real ProbeOBJGenerator \<Rightarrow> py_float ProbeOBJGenerator" where
  "float_mesh g =
     \<lparr>vertices = map (\<lambda>(x, y, z). (PyFloat x, PyFloat y, PyFloat z)) (vertices g),
      faces = faces g, vertex_count = vertex_count g\<rparr>"

text \<open>
  \<open>getattr(probe, "model_name", output_path.stem)\<close>; the header is written with an
  f-string, which prints the value \<open>None\<close> as \<open>None\<close>.
\<close>

definition display_name :: "Probe \<Rightarrow> Path \<Rightarrow> string" where
  "display_name probe output_path =
     (case model_name probe of
        None \<Rightarrow> stem output_path
      | Some None \<Rightarrow> ''None''
      | Some (Some name) \<Rightarrow> name)"

definition generate_probe_obj ::
  "file_system \<Rightarrow> Probe \<Rightarrow> Path \<Rightarrow> real \<Rightarrow> real \<Rightarrow> bool \<Rightarrow> bool \<times> file_system" where
  "generate_probe_obj fs probe output_path probe_thickness contact_height add_contacts =
     (let generator = new_generator;
          (ok, generator') =
             generate_probe_mesh probe probe_thickness contact_height False generator
      in if ok
         then (let probe_name = display_name probe output_path
               in save_obj fs (path_string output_path) probe_name (float_mesh generator'))
         else (False, fs))"

section \<open>Reading the serialised text\<close>

text \<open>
  The repository writes the format and has no reader for it. The reader below is the
  line-oriented one the format calls for: the text is cut at every line break, a line
  beginning with \<open>v \<close> holds three decimal numbers, a line beginning with \<open>f \<close>
  holds integers, separated by spaces, and every other line (a comment, an empty line)
  is skipped. It is the reader against which the round trip of the serialisation is
  stated.
\<close>

fun split_on :: "char \<Rightarrow> string \<Rightarrow> string list" where
  "split_on c [] = [[]]"
| "split_on c (x # xs) =
     (if x = c then [] # split_on c xs
      else (case split_on c xs of
              [] \<Rightarrow> [[x]]
            | w # ws \<Rightarrow> (x # w) # ws))"

definition words :: "string \<Rightarrow> string list" where
  "words s = filter (\<lambda>w. w \<noteq> []) (split_on CHR '' '' s)"

definition is_digit :: "char \<Rightarrow> bool" where
  "is_digit c = (48 \<le> (of_char c :: nat) \<and> (of_char c :: nat) \<le> 57)"

definition digit_val :: "char \<Rightarrow> nat" where
  "digit_val c = of_char c - 48"

definition parse_nat :: "string \<Rightarrow> nat option" where
  "parse_nat s =
     (if s \<noteq> [] \<and> list_all is_digit s
      then Some (foldl (\<lambda>a c. 10 * a + digit_val c) 0 s) else None)"

definition parse_int :: "string \<Rightarrow> int option" where
  "parse_int s =
     (if s \<noteq> [] \<and> hd s = CHR ''-'' then map_option (\<lambda>n. - int n) (parse_nat (tl s))
      else map_option int (parse_nat s))"

definition parse_unsigned_decimal :: "string \<Rightarrow> real option" where
  "parse_unsigned_decimal s =
     (case split_on CHR ''.'' s of
        [ip, fp] \<Rightarrow>
          (case parse_nat ip of
             None \<Rightarrow> None
           | Some a \<Rightarrow>
              (case parse_nat fp of
                 None \<Rightarrow> None
               | Some b \<Rightarrow> Some (real a + real b / 10 ^ length fp)))
      | _ \<Rightarrow> None)"

definition parse_decimal :: "string \<Rightarrow> real option" where
  "parse_decimal s =
     (if s \<noteq> [] \<and> hd s = CHR ''-'' then map_option uminus (parse_unsigned_decimal (tl s))
      else parse_unsigned_decimal s)"

definition parse_vertex :: "string \<Rightarrow> vertex option" where
  "parse_vertex s =
     (case those (map parse_decimal (words s)) of
        Some [x, y, z] \<Rightarrow> Some (x, y, z)
      | _ \<Rightarrow> None)"

definition parse_face :: "string \<Rightarrow> int list option" where
  "parse_face s = those (map parse_int (words s))"

fun parse_lines :: "string list \<Rightarrow> (vertex list \<times> int list list) option" where
  "parse_lines [] = Some ([], [])"
| "parse_lines (l # ls) =
     (case parse_lines ls of
        None \<Rightarrow> None
      | Some (vs, fs) \<Rightarrow>
          if take 2 l = ''v '' then
            (case parse_vertex (drop 2 l) of None \<Rightarrow> None | Some v \<Rightarrow> Some (v # vs, fs))
          else if take 2 l = ''f '' then
            (case parse_face (drop 2 l) of None \<Rightarrow> None | Some f \<Rightarrow> Some (vs, f # fs))
          else Some (vs, fs))"

definition parse_obj :: "string \<Rightarrow> (vertex list \<times> int list list) option" where
  "parse_obj text = parse_lines (split_on newline text)"

text \<open>A number rounded to six decimals, the precision of the serialisation.\<close>

definition to_6_decimals :: "real \<Rightarrow> real" where
  "to_6_decimals x = real_of_int (round_half_even (x * 1000000)) / 1000000"

text \<open>The characters a formatted number is made of.\<close>

definition plain_char :: "char \<Rightarrow> bool" where
  "plain_char c = (is_digit c \<or> c = CHR ''-'' \<or> c = CHR ''.'')"

text \<open>The lines of the file without their line breaks.\<close>

definition vertex_body :: "py_float \<times> py_float \<times> py_float \<Rightarrow> string" where
  "vertex_body v =
     (case v of (x, y, z) \<Rightarrow> ''v '' @ format_6f x @ '' '' @ format_6f y @ '' '' @ format_6f z)"

definition face_body :: "int list \<Rightarrow> string" where
  "face_body face = ''f '' @ join '' '' (map str_int face)"

definition header_lines :: "py_float ProbeOBJGenerator \<Rightarrow> string \<Rightarrow> string list" where
  "header_lines g probe_name =
     [''# Probe: '' @ probe_name,
      ''# Generated by ProbeOBJGenerator'',
      ''# Vertices: '' @ str_nat (length (vertices g)),
      ''# Faces: '' @ str_nat (length (faces g)),
      []]"

definition round_vertex :: "py_float \<times> py_float \<times> py_float \<Rightarrow> vertex" where
  "round_vertex v =
     (case v of (x, y, z) \<Rightarrow>
        (to_6_decimals (float_value x), to_6_decimals (float_value y),
         to_6_decimals (float_value z)))"

text \<open>A mesh of one vertex, with a negative zero, and one face.\<close>

definition sample_mesh :: "py_float ProbeOBJGenerator" where
  "sample_mesh = \<lparr>vertices = [(NegativeZero, PyFloat (5 / 2), PyFloat (- 25 / 2))],
     faces = [[3, 2, 1]], vertex_count = 1\<rparr>"

text \<open>A file system without files, where every path can be opened for writing.\<close>

definition empty_file_system :: file_system where
  "empty_file_system = \<lparr>file_content = Map.empty, can_open = (\<lambda>path. True)\<rparr>"

text \<open>Reading back the file at a path.\<close>

definition read_obj :: "file_system \<Rightarrow> string \<Rightarrow> (vertex list \<times> int list list) option" where
  "read_obj fs filepath =
     (case file_content fs filepath of None \<Rightarrow> None | Some text \<Rightarrow> parse_obj text)"

section \<open>Notions used in the statements\<close>

text \<open>
  With \<open>c\<close> vertices in the generator before an extrusion, the bottom vertex of
  contour point \<open>k\<close> gets index \<open>bottom_of c k\<close> and its top vertex \<open>top_of c k\<close>.
\<close>

definition bottom_of :: "int \<Rightarrow> nat \<Rightarrow> int" where
  "bottom_of c k = c + 2 * int k + 1"

definition top_of :: "int \<Rightarrow> nat \<Rightarrow> int" where
  "top_of c k = c + 2 * int k + 2"

definition prism_vertices :: "(real \<times> real) list \<Rightarrow> real \<Rightarrow> real \<Rightarrow> vertex list" where
  "prism_vertices ps zb zt = concat (map (\<lambda>(x, y). [(x, y, zb), (x, y, zt)]) ps)"

text \<open>
  The two calls every caller makes in a row: \<open>extrude_contour\<close>, then
  \<open>create_faces_from_contour\<close> on the index lists it returned.
\<close>

definition extrude_and_face ::
  "(real \<times> real) list \<Rightarrow> real \<Rightarrow> real \<Rightarrow> real ProbeOBJGenerator
     \<Rightarrow> py_error option \<times> real ProbeOBJGenerator" where
  "extrude_and_face contour z_bottom z_top g =
     (let ((bottom_indices, top_indices), g1) = extrude_contour contour z_bottom z_top g
      in create_faces_from_contour bottom_indices top_indices g1)"

definition quad :: "int list \<Rightarrow> int list \<Rightarrow> nat \<Rightarrow> int list" where
  "quad b t i = [b ! i, b ! ((i + 1) mod length b), t ! ((i + 1) mod length b), t ! i]"

text \<open>
  The x and y coordinates of the contact positions, and the rectangle of the fallback as
  the specification words it: the bounding box of these coordinates, widened by 30 on
  every side, its corners in the order top-left, bottom-left, bottom-right, top-right.
\<close>

fun xs_of :: "contact_array \<Rightarrow> real list" where
  "xs_of (Positions2D ps) = map fst ps"
| "xs_of (Positions3D ps) = map (\<lambda>(x, y, z). x) ps"

fun ys_of :: "contact_array \<Rightarrow> real list" where
  "ys_of (Positions2D ps) = map snd ps"
| "ys_of (Positions3D ps) = map (\<lambda>(x, y, z). y) ps"

definition fallback_rectangle :: "contact_array \<Rightarrow> (real \<times> real) list" where
  "fallback_rectangle arr =
     (let left = Min (set (xs_of arr)) - 30;
          right = Max (set (xs_of arr)) + 30;
          bottom = Min (set (ys_of arr)) - 30;
          top = Max (set (ys_of arr)) + 30
      in [(left, top), (left, bottom), (right, bottom), (right, top)])"

text \<open>A contour is usable when it is present and has at least three points.\<close>

definition usable_contour :: "Probe \<Rightarrow> bool" where
  "usable_contour probe =
     (case probe_planar_contour probe of None \<Rightarrow> False | Some c \<Rightarrow> 3 \<le> contour_len c)"



text \<open>A probe without contour and with one contact at the origin.\<close>

definition single_contact_probe :: Probe where
  "single_contact_probe = \<lparr>ndim = 2, contact_positions = Some (Positions2D [(0, 0)]),
     probe_planar_contour = None, contact_shapes = None, contact_shape_params = None,
     model_name = None\<rparr>"

text \<open>A probe with a contour of two points and no contact positions.\<close>

definition bare_probe :: Probe where
  "bare_probe = \<lparr>ndim = 2, contact_positions = None,
     probe_planar_contour = Some (Contour2D [(0, 0), (1, 1)]), contact_shapes = None,
     contact_shape_params = None, model_name = None\<rparr>"




definition injecting_name :: string where
  "injecting_name = ''x'' @ [newline] @ ''v 1.0 2.0 3.0''"

text \<open>A probe with one contact whose shape tag is none of the three the loop knows.\<close>

definition hexagon_probe :: Probe where
  "hexagon_probe = \<lparr>ndim = 2, contact_positions = Some (Positions2D [(0, 0)]),
     probe_planar_contour = None, contact_shapes = Some [''hexagon''],
     contact_shape_params = Some [[''radius'' \<mapsto> 10]], model_name = None\<rparr>"


section \<open>Facts about the extrusion kernel\<close>

lemma length_prism_vertices: "length (prism_vertices ps zb zt) = 2 * length ps"
  by (induction ps) (auto simp: prism_vertices_def)

lemma map_upt_Suc_shift:
  "map f [0..<Suc n] = f 0 # map (\<lambda>k. f (Suc k)) [0..<n]"
  by (simp add: upt_conv_Cons map_Suc_upt [symmetric] del: upt_Suc)

lemma extrude_loop_eq:
  "extrude_loop ps zb zt bs ts g =
     ((bs @ map (bottom_of (vertex_count g)) [0..<length ps],
       ts @ map (top_of (vertex_count g)) [0..<length ps]),
      g\<lparr>vertices := vertices g @ prism_vertices ps zb zt,
        vertex_count := vertex_count g + 2 * int (length ps)\<rparr>)"
proof (induction ps arbitrary: bs ts g)
  case Nil
  show ?case by (simp add: prism_vertices_def)
next
  case (Cons p ps)
  obtain x y where p: "p = (x, y)" by (cases p)
  show ?case
    unfolding p
    by (simp add: Cons.IH add_vertex_def Let_def map_upt_Suc_shift prism_vertices_def
        bottom_of_def top_of_def del: upt_Suc)
qed

lemma extrude_contour_eq:
  "extrude_contour ps zb zt g =
     ((map (bottom_of (vertex_count g)) [0..<length ps],
       map (top_of (vertex_count g)) [0..<length ps]),
      g\<lparr>vertices := vertices g @ prism_vertices ps zb zt,
        vertex_count := vertex_count g + 2 * int (length ps)\<rparr>)"
  by (simp add: extrude_contour_def extrude_loop_eq)

lemma side_faces_eq:
  assumes "length t = length b" and "\<forall>i \<in> set is. i < length b"
  shows "side_faces b t is g = (None, g\<lparr>faces := faces g @ map (quad b t) is\<rparr>)"
  using assms
proof (induction "is" arbitrary: g)
  case Nil
  show ?case by simp
next
  case (Cons i rest)
  from Cons.prems have i: "i < length b"
    by simp
  then have "0 < length b"
    by linarith
  then have n: "Suc i mod length b < length b"
    by (rule mod_less_divisor)
  show ?case
    using Cons.prems i n
    by (simp add: Cons.IH Let_def add_face_def quad_def)
qed

lemma create_faces_from_contour_eq:
  assumes "length t = length b"
  shows "create_faces_from_contour b t g =
     (None, g\<lparr>faces := faces g @ (if 3 \<le> length b then [rev b, t] else [])
                 @ map (quad b t) [0..<length b]\<rparr>)"
  using assms by (simp add: create_faces_from_contour_def Let_def side_faces_eq add_face_def)

lemma extrude_and_face_eq:
  "extrude_and_face ps zb zt g =
     (None,
      g\<lparr>vertices := vertices g @ prism_vertices ps zb zt,
        vertex_count := vertex_count g + 2 * int (length ps),
        faces := faces g
          @ (if 3 \<le> length ps
             then [rev (map (bottom_of (vertex_count g)) [0..<length ps]),
                   map (top_of (vertex_count g)) [0..<length ps]]
             else [])
          @ map (quad (map (bottom_of (vertex_count g)) [0..<length ps])
                      (map (top_of (vertex_count g)) [0..<length ps]))
              [0..<length ps]\<rparr>)"
  by (simp add: extrude_and_face_def extrude_contour_eq create_faces_from_contour_eq)

lemma set_quad_subset:
  assumes "i < length b" and "length t = length b"
  shows "set (quad b t i) \<subseteq> set b \<union> set t"
proof -
  from assms(1) have "0 < length b" by linarith
  then have n: "Suc i mod length b < length b" by (rule mod_less_divisor)
  show ?thesis
    using assms n by (auto simp: quad_def)
qed

lemma bottom_of_bounds: "k < n \<Longrightarrow> c + 1 \<le> bottom_of c k \<and> bottom_of c k \<le> c + 2 * int n"
  by (simp add: bottom_of_def)

lemma top_of_bounds: "k < n \<Longrightarrow> c + 1 \<le> top_of c k \<and> top_of c k \<le> c + 2 * int n"
  by (simp add: top_of_def)

lemma prism_face_indices:
  assumes "f \<in> set ((if 3 \<le> n
             then [rev (map (bottom_of c) [0..<n]), map (top_of c) [0..<n]]
             else [])
          @ map (quad (map (bottom_of c) [0..<n]) (map (top_of c) [0..<n])) [0..<n])"
    and "i \<in> set f"
  shows "c + 1 \<le> i \<and> i \<le> c + 2 * int n"
proof -
  let ?b = "map (bottom_of c) [0..<n]" and ?t = "map (top_of c) [0..<n]"
  have "set f \<subseteq> set ?b \<union> set ?t"
  proof -
    from assms(1) consider "f = rev ?b" | "f = ?t" | k where "k < n" "f = quad ?b ?t k"
      by (auto split: if_splits)
    then show ?thesis
    proof cases
      case 3
      then show ?thesis using set_quad_subset [of k ?b ?t] by simp
    qed auto
  qed
  with assms(2) have "i \<in> set ?b \<union> set ?t" by blast
  then obtain k where "k < n" and "i = bottom_of c k \<or> i = top_of c k"
    by auto
  then show ?thesis
    using bottom_of_bounds [of k n c] top_of_bounds [of k n c] by auto
qed

lemma reset_eq: "reset g = new_generator"
  by (cases g) (simp add: reset_def new_generator_def)

lemma prism_vertices_nth:
  "i < length ps \<Longrightarrow>
     prism_vertices ps zb zt ! (2 * i) = (fst (ps ! i), snd (ps ! i), zb)
   \<and> prism_vertices ps zb zt ! (2 * i + 1) = (fst (ps ! i), snd (ps ! i), zt)"
proof (induction ps arbitrary: i)
  case Nil
  then show ?case by simp
next
  case (Cons p ps)
  show ?case
  proof (cases i)
    case 0
    then show ?thesis by (simp add: prism_vertices_def split_beta)
  next
    case (Suc j)
    with Cons.prems have "j < length ps" by simp
    from Cons.IH [OF this] show ?thesis
      using Suc by (simp add: prism_vertices_def split_beta)
  qed
qed

lemma quad_prism:
  assumes "i < n"
  shows "quad (map (bottom_of c) [0..<n]) (map (top_of c) [0..<n]) i =
     [bottom_of c i, bottom_of c ((i + 1) mod n), top_of c ((i + 1) mod n), top_of c i]"
proof -
  from assms have "0 < n" by linarith
  then have "Suc i mod n < n" by (rule mod_less_divisor)
  with assms show ?thesis by (simp add: quad_def)
qed

lemma prism_faces_explicit:
  "map (quad (map (bottom_of c) [0..<n]) (map (top_of c) [0..<n])) [0..<n] =
   map (\<lambda>i. [bottom_of c i, bottom_of c ((i + 1) mod n), top_of c ((i + 1) mod n), top_of c i])
     [0..<n]"
  by (rule map_cong) (simp_all add: quad_prism)

lemma generate_probe_mesh_contour:
  assumes "probe_planar_contour probe = Some (Contour2D contour)" and "3 \<le> length contour"
  shows "generate_probe_mesh probe thickness contact_height add_contacts g =
     (True, snd (extrude_and_face contour (- thickness / 2) (thickness / 2) new_generator))"
  using assms
  by (simp add: generate_probe_mesh_def reset_eq extrude_and_face_eq extrude_contour_eq
      create_faces_from_contour_eq Let_def)

lemma generate_probe_mesh_three_columns:
  assumes "probe_planar_contour probe = Some (Contour3D contour)" and "3 \<le> length contour"
  shows "generate_probe_mesh probe thickness contact_height add_contacts g =
     (False, new_generator)"
proof -
  from assms(2) obtain point points where "contour = point # points"
    by (cases contour) auto
  with assms show ?thesis
    by (simp add: generate_probe_mesh_def reset_eq Let_def)
qed

lemma square_faces:
  "extrude_and_face [(0, 0), (0, 10), (10, 10), (10, 0)] (- 10) 10 new_generator =
     (None, \<lparr>vertices = [(0, 0, - 10), (0, 0, 10), (0, 10, - 10), (0, 10, 10),
                (10, 10, - 10), (10, 10, 10), (10, 0, - 10), (10, 0, 10)],
             faces = [[7, 5, 3, 1], [2, 4, 6, 8], [1, 3, 4, 2], [3, 5, 6, 4],
                      [5, 7, 8, 6], [7, 1, 2, 8]],
             vertex_count = 8\<rparr>)"
  by (simp add: extrude_and_face_eq new_generator_def prism_vertices_def quad_def
      bottom_of_def top_of_def)

text \<open>
  Claim C1. A contour of \<open>N \<ge> 3\<close> points extruded between \<open>z_bottom < z_top\<close> on an
  empty builder raises nothing and leaves exactly \<open>2N\<close> vertices, a bottom and a top
  vertex per point in contour order, and exactly \<open>N + 2\<close> faces; every index in every
  face lies between \<open>1\<close> and \<open>2N\<close>.
\<close>

theorem extrusion_counts:
  assumes "3 \<le> length contour" and "z_bottom < z_top"
  shows "fst (extrude_and_face contour z_bottom z_top new_generator) = None
    \<and> vertices (snd (extrude_and_face contour z_bottom z_top new_generator))
        = prism_vertices contour z_bottom z_top
    \<and> length (vertices (snd (extrude_and_face contour z_bottom z_top new_generator)))
        = 2 * length contour
    \<and> length (faces (snd (extrude_and_face contour z_bottom z_top new_generator)))
        = length contour + 2
    \<and> (\<forall>f \<in> set (faces (snd (extrude_and_face contour z_bottom z_top new_generator))).
         \<forall>i \<in> set f. 1 \<le> i \<and> i \<le> 2 * int (length contour))"
proof -
  have idx: "\<forall>f \<in> set (faces (snd (extrude_and_face contour z_bottom z_top new_generator))).
         \<forall>i \<in> set f. 1 \<le> i \<and> i \<le> 2 * int (length contour)"
  proof (intro ballI)
    fix f i
    assume f: "f \<in> set (faces (snd (extrude_and_face contour z_bottom z_top new_generator)))"
      and i: "i \<in> set f"
    from f have "f \<in> set ((if 3 \<le> length contour
             then [rev (map (bottom_of 0) [0..<length contour]), map (top_of 0) [0..<length contour]]
             else [])
          @ map (quad (map (bottom_of 0) [0..<length contour]) (map (top_of 0) [0..<length contour]))
              [0..<length contour])"
      by (simp add: extrude_and_face_eq new_generator_def)
    from prism_face_indices [OF this i] show "1 \<le> i \<and> i \<le> 2 * int (length contour)"
      by simp
  qed
  show ?thesis
    using assms(1) idx
    by (simp add: extrude_and_face_eq new_generator_def length_prism_vertices)
qed

theorem extrusion_counts_witness:
  "3 \<le> length [(0, 0), (4, 0), (0, 3 :: real)] \<and> (-1 :: real) < 1
   \<and> vertices (snd (extrude_and_face [(0, 0), (4, 0), (0, 3)] (-1) 1 new_generator))
       = [(0, 0, -1), (0, 0, 1), (4, 0, -1), (4, 0, 1), (0, 3, -1), (0, 3, 1)]
   \<and> length (faces (snd (extrude_and_face [(0, 0), (4, 0), (0, 3)] (-1) 1 new_generator))) = 5"
  using extrusion_counts [of "[(0, 0), (4, 0), (0, 3)]" "-1" 1]
  by (simp add: prism_vertices_def)

text \<open>
  Claim C2. For a contour of \<open>N \<ge> 3\<close> points the faces are, in this order: the bottom
  cap, listing the bottom vertices in reversed contour order; the top cap, listing the
  top vertices in contour order; then for every \<open>i\<close> the side face
  \<open>[bottom(i), bottom(i+1 mod N), top(i+1 mod N), top(i)]\<close>. Here \<open>bottom(i)\<close> is the
  index \<open>2i + 1\<close> and \<open>top(i)\<close> the index \<open>2i + 2\<close>, the 1-based places of the
  bottom and top vertex of contour point \<open>i\<close>. The square
  \<open>[(0,0),(0,10),(10,10),(10,0)]\<close> with thickness 20 gives 8 vertices and 6 faces, the
  first of them \<open>[7,5,3,1]\<close>.
\<close>

theorem extrusion_face_order:
  assumes "3 \<le> length contour"
  shows "faces (snd (extrude_and_face contour z_bottom z_top new_generator)) =
      rev (map (\<lambda>i. 2 * int i + 1) [0..<length contour])
      # map (\<lambda>i. 2 * int i + 2) [0..<length contour]
      # map (\<lambda>i. [2 * int i + 1, 2 * int ((i + 1) mod length contour) + 1,
                   2 * int ((i + 1) mod length contour) + 2, 2 * int i + 2])
          [0..<length contour]
    \<and> (\<forall>i < length contour.
          vertices (snd (extrude_and_face contour z_bottom z_top new_generator)) ! (2 * i)
            = (fst (contour ! i), snd (contour ! i), z_bottom)
        \<and> vertices (snd (extrude_and_face contour z_bottom z_top new_generator)) ! (2 * i + 1)
            = (fst (contour ! i), snd (contour ! i), z_top))
    \<and> generate_probe_mesh (probe\<lparr>probe_planar_contour :=
            Some (Contour2D [(0, 0), (0, 10), (10, 10), (10, 0)])\<rparr>)
          20 contact_height add_contacts g =
        (True, \<lparr>vertices = [(0, 0, - 10), (0, 0, 10), (0, 10, - 10), (0, 10, 10),
                   (10, 10, - 10), (10, 10, 10), (10, 0, - 10), (10, 0, 10)],
                faces = [[7, 5, 3, 1], [2, 4, 6, 8], [1, 3, 4, 2], [3, 5, 6, 4],
                         [5, 7, 8, 6], [7, 1, 2, 8]],
                vertex_count = 8\<rparr>)"
proof (intro conjI)
  show "faces (snd (extrude_and_face contour z_bottom z_top new_generator)) =
      rev (map (\<lambda>i. 2 * int i + 1) [0..<length contour])
      # map (\<lambda>i. 2 * int i + 2) [0..<length contour]
      # map (\<lambda>i. [2 * int i + 1, 2 * int ((i + 1) mod length contour) + 1,
                   2 * int ((i + 1) mod length contour) + 2, 2 * int i + 2])
          [0..<length contour]"
    using assms
    by (simp add: extrude_and_face_eq new_generator_def prism_faces_explicit bottom_of_def
        top_of_def)
next
  show "\<forall>i < length contour.
          vertices (snd (extrude_and_face contour z_bottom z_top new_generator)) ! (2 * i)
            = (fst (contour ! i), snd (contour ! i), z_bottom)
        \<and> vertices (snd (extrude_and_face contour z_bottom z_top new_generator)) ! (2 * i + 1)
            = (fst (contour ! i), snd (contour ! i), z_top)"
    using prism_vertices_nth [of _ contour z_bottom z_top]
    by (simp add: extrude_and_face_eq new_generator_def)
next
  have "generate_probe_mesh (probe\<lparr>probe_planar_contour :=
            Some (Contour2D [(0, 0), (0, 10), (10, 10), (10, 0)])\<rparr>)
          20 contact_height add_contacts g =
        (True, snd (extrude_and_face [(0, 0), (0, 10), (10, 10), (10, 0)] (- 20 / 2) (20 / 2)
                      new_generator))"
    by (rule generate_probe_mesh_contour) simp_all
  then show "generate_probe_mesh (probe\<lparr>probe_planar_contour :=
            Some (Contour2D [(0, 0), (0, 10), (10, 10), (10, 0)])\<rparr>)
          20 contact_height add_contacts g =
        (True, \<lparr>vertices = [(0, 0, - 10), (0, 0, 10), (0, 10, - 10), (0, 10, 10),
                   (10, 10, - 10), (10, 10, 10), (10, 0, - 10), (10, 0, 10)],
                faces = [[7, 5, 3, 1], [2, 4, 6, 8], [1, 3, 4, 2], [3, 5, 6, 4],
                         [5, 7, 8, 6], [7, 1, 2, 8]],
                vertex_count = 8\<rparr>)"
    by (simp add: square_faces)
qed

theorem extrusion_face_order_witness:
  "3 \<le> length [(0, 0), (4, 0), (0, 3 :: real)]
   \<and> faces (snd (extrude_and_face [(0, 0), (4, 0), (0, 3)] (- 1) 1 new_generator)) =
       [[5, 3, 1], [2, 4, 6], [1, 3, 4, 2], [3, 5, 6, 4], [5, 1, 2, 6]]"
  using extrusion_face_order [of "[(0, 0), (4, 0), (0, 3)]" "- 1" 1]
  by simp

text \<open>
  Claim C3, as stated, fails: on the square the bottom cap is \<open>[7,5,3,1]\<close> and the
  reversed top cap is \<open>[8,6,4,2]\<close>; the two caps list different vertices.
\<close>

theorem cap_reverse_counterexample:
  "3 \<le> length [(0, 0), (0, 10), (10, 10), (10 :: real, 0 :: real)]
   \<and> faces (snd (extrude_and_face [(0, 0), (0, 10), (10, 10), (10, 0)] (- 10) 10 new_generator)) ! 0
       = [7, 5, 3, 1]
   \<and> rev (faces (snd (extrude_and_face [(0, 0), (0, 10), (10, 10), (10, 0)] (- 10) 10
                      new_generator)) ! 1)
       = [8, 6, 4, 2]
   \<and> faces (snd (extrude_and_face [(0, 0), (0, 10), (10, 10), (10, 0)] (- 10) 10 new_generator)) ! 0
       \<noteq> rev (faces (snd (extrude_and_face [(0, 0), (0, 10), (10, 10), (10, 0)] (- 10) 10
                      new_generator)) ! 1)"
  by (simp add: square_faces)

text \<open>
  Claim C3, amended. For a contour of \<open>N \<ge> 3\<close> points the bottom cap is the reversed
  list of bottom indices and the top cap the list of top indices returned by
  \<open>extrude_contour\<close>; the bottom cap is the reverse of the top cap with every index
  lowered by one, that is, with the top vertex of each point replaced by its bottom
  vertex: the same points in the opposite winding.
\<close>

theorem cap_reverse_pointwise:
  assumes "3 \<le> length contour"
  shows "faces (snd (extrude_and_face contour z_bottom z_top new_generator)) ! 0
           = rev (fst (fst (extrude_contour contour z_bottom z_top new_generator)))
    \<and> faces (snd (extrude_and_face contour z_bottom z_top new_generator)) ! 1
           = snd (fst (extrude_contour contour z_bottom z_top new_generator))
    \<and> faces (snd (extrude_and_face contour z_bottom z_top new_generator)) ! 0
           = rev (map (\<lambda>i. i - 1)
               (faces (snd (extrude_and_face contour z_bottom z_top new_generator)) ! 1))"
  using assms
  by (simp add: extrude_and_face_eq extrude_contour_eq new_generator_def bottom_of_def
      top_of_def comp_def)

theorem cap_reverse_pointwise_witness:
  "3 \<le> length [(0, 0), (4, 0), (0, 3 :: real)]
   \<and> faces (snd (extrude_and_face [(0, 0), (4, 0), (0, 3)] (- 1) 1 new_generator)) ! 0
       = rev (map (\<lambda>i. i - 1)
           (faces (snd (extrude_and_face [(0, 0), (4, 0), (0, 3)] (- 1) 1 new_generator)) ! 1))"
proof -
  have h: "3 \<le> length [(0, 0), (4, 0), (0, 3 :: real)]"
    by simp
  from cap_reverse_pointwise [OF h, of "- 1" 1] h show ?thesis
    by blast
qed

text \<open>
  Claim C10. A contour of one or two points is not rejected by the kernel: the extrusion
  raises nothing, appends \<open>2N\<close> vertices, and the faces are the \<open>N\<close> side
  quadrilaterals alone, without caps: \<open>[1,1,2,2]\<close> for one point, \<open>[1,3,4,2]\<close> and
  \<open>[3,1,2,4]\<close> for two.
\<close>

theorem degenerate_contour_extrusion:
  assumes "0 < length contour" and "length contour < 3"
  shows "fst (extrude_and_face contour z_bottom z_top new_generator) = None
    \<and> vertices (snd (extrude_and_face contour z_bottom z_top new_generator))
        = prism_vertices contour z_bottom z_top
    \<and> length (vertices (snd (extrude_and_face contour z_bottom z_top new_generator)))
        = 2 * length contour
    \<and> faces (snd (extrude_and_face contour z_bottom z_top new_generator))
        = map (\<lambda>i. [2 * int i + 1, 2 * int ((i + 1) mod length contour) + 1,
                     2 * int ((i + 1) mod length contour) + 2, 2 * int i + 2])
            [0..<length contour]
    \<and> length (faces (snd (extrude_and_face contour z_bottom z_top new_generator)))
        = length contour
    \<and> (length contour = 1 \<longrightarrow>
          faces (snd (extrude_and_face contour z_bottom z_top new_generator)) = [[1, 1, 2, 2]])
    \<and> (length contour = 2 \<longrightarrow>
          faces (snd (extrude_and_face contour z_bottom z_top new_generator))
            = [[1, 3, 4, 2], [3, 1, 2, 4]])"
proof -
  have fs: "faces (snd (extrude_and_face contour z_bottom z_top new_generator))
        = map (\<lambda>i. [2 * int i + 1, 2 * int ((i + 1) mod length contour) + 1,
                     2 * int ((i + 1) mod length contour) + 2, 2 * int i + 2])
            [0..<length contour]"
    using assms
    by (simp add: extrude_and_face_eq new_generator_def prism_faces_explicit bottom_of_def
        top_of_def)
  have one: "length contour = 1 \<longrightarrow>
          faces (snd (extrude_and_face contour z_bottom z_top new_generator)) = [[1, 1, 2, 2]]"
    by (simp add: fs)
  have two: "length contour = 2 \<longrightarrow>
          faces (snd (extrude_and_face contour z_bottom z_top new_generator))
            = [[1, 3, 4, 2], [3, 1, 2, 4]]"
  proof
    assume l: "length contour = 2"
    have u: "[0..<2] = [0, Suc 0]"
      by (simp add: numeral_2_eq_2)
    show "faces (snd (extrude_and_face contour z_bottom z_top new_generator))
            = [[1, 3, 4, 2], [3, 1, 2, 4]]"
      by (simp add: fs l u)
  qed
  have rest: "fst (extrude_and_face contour z_bottom z_top new_generator) = None
    \<and> vertices (snd (extrude_and_face contour z_bottom z_top new_generator))
        = prism_vertices contour z_bottom z_top
    \<and> length (vertices (snd (extrude_and_face contour z_bottom z_top new_generator)))
        = 2 * length contour"
    by (simp add: extrude_and_face_eq new_generator_def length_prism_vertices)
  have len: "length (faces (snd (extrude_and_face contour z_bottom z_top new_generator)))
        = length contour"
    by (simp add: fs)
  from rest fs len one two show ?thesis by blast
qed

theorem degenerate_contour_extrusion_witness:
  "0 < length [(5 :: real, 7 :: real)] \<and> length [(5 :: real, 7 :: real)] < 3
   \<and> fst (extrude_and_face [(5, 7)] 0 1 new_generator) = None
   \<and> vertices (snd (extrude_and_face [(5, 7)] 0 1 new_generator)) = [(5, 7, 0), (5, 7, 1)]
   \<and> faces (snd (extrude_and_face [(5, 7)] 0 1 new_generator)) = [[1, 1, 2, 2]]"
  using degenerate_contour_extrusion [of "[(5, 7)]" 0 1]
  by (simp add: prism_vertices_def)

lemma circle_loop_eq:
  "circle_loop angles x y z radius height bs ts g =
     extrude_loop (map (\<lambda>a. (x + radius * cos a, y + radius * sin a)) angles)
       (z - height / 2) (z + height / 2) bs ts g"
  by (induction angles arbitrary: bs ts g) (simp_all add: Let_def add_vertex_def)

lemma add_circular_contact_eq:
  "add_circular_contact [x, y, z] radius height n g =
     extrude_and_face
       (map (\<lambda>a. (x + radius * cos a, y + radius * sin a)) (linspace_open 0 (2 * pi) n))
       (z - height / 2) (z + height / 2) g"
  by (simp add: add_circular_contact_def circle_loop_eq extrude_and_face_def
      extrude_contour_def)

lemma linspace_open_8:
  "linspace_open 0 (2 * pi) 8 = map (\<lambda>k. real k * (pi / 4)) [0..<8]"
  by (simp add: linspace_open_def)

text \<open>
  Claim C9. For every centre, radius and height, a circular contact is built from the 8
  angles \<open>k * pi / 4\<close>, \<open>k = 0, ..., 7\<close>, evenly spaced over \<open>[0, 2 pi)\<close> without the
  end point, extruded between \<open>z - height / 2\<close> and \<open>z + height / 2\<close>: it appends
  16 vertices (a bottom and a top vertex per angle) and 10 faces (a bottom cap, a top
  cap and 8 side faces), whatever the radius.
\<close>

theorem circular_contact_counts:
  "fst (add_circular_contact [x, y, z] radius height 8 g) = None
   \<and> linspace_open 0 (2 * pi) 8 = map (\<lambda>k. real k * (pi / 4)) [0..<8]
   \<and> vertices (snd (add_circular_contact [x, y, z] radius height 8 g))
       = vertices g
         @ concat (map (\<lambda>k. [(x + radius * cos (real k * (pi / 4)),
                               y + radius * sin (real k * (pi / 4)), z - height / 2),
                              (x + radius * cos (real k * (pi / 4)),
                               y + radius * sin (real k * (pi / 4)), z + height / 2)])
                    [0..<8])
   \<and> length (vertices (snd (add_circular_contact [x, y, z] radius height 8 g)))
       = length (vertices g) + 16
   \<and> faces (snd (add_circular_contact [x, y, z] radius height 8 g))
       = faces g
         @ rev (map (bottom_of (vertex_count g)) [0..<8])
         # map (top_of (vertex_count g)) [0..<8]
         # map (\<lambda>i. [bottom_of (vertex_count g) i, bottom_of (vertex_count g) ((i + 1) mod 8),
                      top_of (vertex_count g) ((i + 1) mod 8), top_of (vertex_count g) i])
             [0..<8]
   \<and> length (faces (snd (add_circular_contact [x, y, z] radius height 8 g)))
       = length (faces g) + 10"
proof -
  let ?ps = "map (\<lambda>a. (x + radius * cos a, y + radius * sin a)) (linspace_open 0 (2 * pi) 8)"
  let ?r = "add_circular_contact [x, y, z] radius height 8 g"
  have len: "length ?ps = 8"
    by (simp add: linspace_open_def)
  have vs: "prism_vertices ?ps (z - height / 2) (z + height / 2)
      = concat (map (\<lambda>k. [(x + radius * cos (real k * (pi / 4)),
                               y + radius * sin (real k * (pi / 4)), z - height / 2),
                              (x + radius * cos (real k * (pi / 4)),
                               y + radius * sin (real k * (pi / 4)), z + height / 2)])
                    [0..<8])"
    by (simp only: linspace_open_8 prism_vertices_def map_map comp_def split_conv)
  have r: "?r = extrude_and_face ?ps (z - height / 2) (z + height / 2) g"
    by (rule add_circular_contact_eq)
  have c1: "fst ?r = None"
    by (simp only: r extrude_and_face_eq fst_conv)
  have c3: "vertices (snd ?r) = vertices g @ prism_vertices ?ps (z - height / 2) (z + height / 2)"
    by (simp add: r extrude_and_face_eq)
  have c4: "length (vertices (snd ?r)) = length (vertices g) + 16"
    by (simp add: c3 length_prism_vertices linspace_open_def)
  have c5: "faces (snd ?r)
       = faces g
         @ rev (map (bottom_of (vertex_count g)) [0..<8])
         # map (top_of (vertex_count g)) [0..<8]
         # map (\<lambda>i. [bottom_of (vertex_count g) i, bottom_of (vertex_count g) ((i + 1) mod 8),
                      top_of (vertex_count g) ((i + 1) mod 8), top_of (vertex_count g) i])
             [0..<8]"
    unfolding r extrude_and_face_eq len prism_faces_explicit by simp
  have c6: "length (faces (snd ?r)) = length (faces g) + 10"
    unfolding c5 by simp
  from c1 linspace_open_8 c3 [unfolded vs] c4 c5 c6 show ?thesis
    by blast
qed

theorem circular_contact_counts_witness:
  "length (vertices (snd (add_circular_contact [0, 0, 0] 5 2 8 new_generator))) = 16
   \<and> length (faces (snd (add_circular_contact [0, 0, 0] 5 2 8 new_generator))) = 10"
proof -
  have e: "length (vertices (new_generator :: real ProbeOBJGenerator)) = 0"
    "length (faces (new_generator :: real ProbeOBJGenerator)) = 0"
    by (simp_all add: new_generator_def)
  from circular_contact_counts [of 0 0 0 5 2 new_generator]
  have "length (vertices (snd (add_circular_contact [0, 0, 0] 5 2 8 new_generator)))
          = length (vertices (new_generator :: real ProbeOBJGenerator)) + 16
      \<and> length (faces (snd (add_circular_contact [0, 0, 0] 5 2 8 new_generator)))
          = length (faces (new_generator :: real ProbeOBJGenerator)) + 10"
    by blast
  then show ?thesis
    unfolding e by simp
qed

lemma hexagon_probe_unchanged:
  "add_contact_geometry hexagon_probe 2 new_generator = (None, new_generator)"
  by (simp add: add_contact_geometry_def hexagon_probe_def column_stack_zeros_def
      enumerate_eq_zip)

text \<open>
  Claim C4, as stated, fails: a contact tagged \<open>hexagon\<close> leaves the builder as it
  was, while a circle of radius 10 would add 16 vertices.
\<close>

theorem unrecognized_shape_counterexample:
  "add_contact_geometry hexagon_probe 2 new_generator = (None, new_generator)
   \<and> vertices (new_generator :: real ProbeOBJGenerator) = []
   \<and> length (vertices (snd (add_circular_contact [0, 0, 0] 10 2 8 new_generator))) = 16
   \<and> add_contact_geometry hexagon_probe 2 new_generator
       \<noteq> add_circular_contact [0, 0, 0] 10 2 8 new_generator"
proof -
  have l: "length (vertices (snd (add_circular_contact [0, 0, 0] 10 2 8 new_generator))) = 16"
    by (simp add: add_circular_contact_eq extrude_and_face_eq length_prism_vertices
        linspace_open_def new_generator_def)
  have v: "vertices (new_generator :: real ProbeOBJGenerator) = []"
    by (simp add: new_generator_def)
  from l v have "(None, new_generator) \<noteq> add_circular_contact [0, 0, 0] 10 2 8 new_generator"
    by (metis list.size(3) snd_conv zero_neq_numeral)
  with l v hexagon_probe_unchanged show ?thesis
    by simp
qed

text \<open>
  Claim C4, amended. In the loop of \<open>add_contact_geometry\<close>, a contact whose shape tag
  is none of \<open>circle\<close>, \<open>square\<close> and \<open>rect\<close> adds no geometry: the loop goes on to the
  next contact with the builder unchanged. The circle of default radius 10 is what a
  contact gets that lies beyond the end of the shape and parameter lists.
\<close>

theorem unrecognized_shape_skipped:
  "(i < length shapes \<and> shapes ! i \<noteq> ''circle'' \<and> shapes ! i \<noteq> ''square''
      \<and> shapes ! i \<noteq> ''rect''
    \<longrightarrow> contact_loop ((i, pos) # rest) shapes shape_params contact_height g
        = contact_loop rest shapes shape_params contact_height g)
   \<and> (length shapes \<le> i \<and> length shape_params \<le> i
    \<longrightarrow> contact_loop ((i, pos) # rest) shapes shape_params contact_height g
        = (case add_circular_contact pos 10 contact_height 8 g of
             (Some e, g') \<Rightarrow> (Some e, g')
           | (None, g') \<Rightarrow> contact_loop rest shapes shape_params contact_height g'))"
  by (simp add: dict_get_def)

theorem unrecognized_shape_skipped_witness:
  "contact_loop [(0, [0, 0, 0])] [''hexagon''] [[''radius'' \<mapsto> 10]] 2 new_generator
     = (None, new_generator)
   \<and> fst (contact_loop [(0, [0, 0, 0])] [] [] 2 new_generator) = None
   \<and> length (vertices (snd (contact_loop [(0, [0, 0, 0])] [] [] 2 new_generator))) = 16"
proof -
  have a: "contact_loop [(0, [0, 0, 0])] [''hexagon''] [[''radius'' \<mapsto> 10]] 2 new_generator
     = contact_loop [] [''hexagon''] [[''radius'' \<mapsto> 10]] 2 new_generator"
    using unrecognized_shape_skipped [of 0 "[''hexagon'']" "[0, 0, 0]" "[]"
        "[[''radius'' \<mapsto> 10]]" 2 new_generator]
    by simp
  have c: "add_circular_contact [0, 0, 0] 10 2 8 new_generator
      = (None, snd (add_circular_contact [0, 0, 0] 10 2 8 new_generator))"
    by (simp add: add_circular_contact_eq extrude_and_face_eq)
  have l: "length (vertices (snd (add_circular_contact [0, 0, 0] 10 2 8 new_generator))) = 16"
    by (simp add: add_circular_contact_eq extrude_and_face_eq length_prism_vertices
        linspace_open_def new_generator_def)
  have b: "contact_loop [(0, [0, 0, 0])] [] [] 2 new_generator
     = (case add_circular_contact [0, 0, 0] 10 2 8 new_generator of
             (Some e, g') \<Rightarrow> (Some e, g')
           | (None, g') \<Rightarrow> contact_loop [] [] [] 2 g')"
    using unrecognized_shape_skipped [of 0 "[]" "[0, 0, 0]" "[]" "[]" 2 new_generator]
    by simp
  have b': "contact_loop [(0, [0, 0, 0])] [] [] 2 new_generator
     = (None, snd (add_circular_contact [0, 0, 0] 10 2 8 new_generator))"
    unfolding b by (subst c) simp
  show ?thesis
    unfolding a b' using l by simp
qed

lemma foldl_map2_nth:
  assumes "\<forall>row \<in> set rs. length row = length r" and "j < length r"
  shows "length (foldl (map2 f) r rs) = length r
       \<and> foldl (map2 f) r rs ! j = foldl f (r ! j) (map (\<lambda>row. row ! j) rs)"
  using assms
proof (induction rs arbitrary: r)
  case Nil
  show ?case by simp
next
  case (Cons s rs)
  from Cons.prems have s: "length s = length r" by simp
  have l: "length (map2 f r s) = length r" using s by simp
  have "\<forall>row \<in> set rs. length row = length (map2 f r s)"
    using Cons.prems(1) l by simp
  moreover have "j < length (map2 f r s)" using Cons.prems(2) l by simp
  ultimately have "length (foldl (map2 f) (map2 f r s) rs) = length (map2 f r s)
       \<and> foldl (map2 f) (map2 f r s) rs ! j
           = foldl f (map2 f r s ! j) (map (\<lambda>row. row ! j) rs)"
    by (rule Cons.IH)
  then show ?case
    using s Cons.prems(2) by simp
qed

lemma foldl_min_Min: "foldl min (a :: real) xs = Min (set (a # xs))"
proof -
  have "(\<lambda>x s. min s x) = (min :: real \<Rightarrow> real \<Rightarrow> real)"
    by (intro ext) (rule min.commute)
  then show ?thesis
    by (simp add: Min.set_eq_fold foldl_conv_fold del: set_simps)
qed

lemma foldl_max_Max: "foldl max (a :: real) xs = Max (set (a # xs))"
proof -
  have "(\<lambda>x s. max s x) = (max :: real \<Rightarrow> real \<Rightarrow> real)"
    by (intro ext) (rule max.commute)
  then show ?thesis
    by (simp add: Max.set_eq_fold foldl_conv_fold del: set_simps)
qed

lemma np_min_axis0_cols:
  assumes "rows \<noteq> []" and "\<forall>row \<in> set rows. length row = n" and "j < n"
  shows "\<exists>m. np_min_axis0 rows = Inr m \<and> length m = n
            \<and> m ! j = Min (set (map (\<lambda>row. row ! j) rows))"
proof -
  from assms(1) obtain r rs where rows: "rows = r # rs" by (cases rows) auto
  with assms have a: "\<forall>row \<in> set rs. length row = length r" and b: "j < length r"
    and n: "length r = n"
    by auto
  from foldl_map2_nth [OF a b, of min] show ?thesis
    by (simp add: np_min_axis0_def rows foldl_min_Min n del: set_simps)
qed

lemma np_max_axis0_cols:
  assumes "rows \<noteq> []" and "\<forall>row \<in> set rows. length row = n" and "j < n"
  shows "\<exists>m. np_max_axis0 rows = Inr m \<and> length m = n
            \<and> m ! j = Max (set (map (\<lambda>row. row ! j) rows))"
proof -
  from assms(1) obtain r rs where rows: "rows = r # rs" by (cases rows) auto
  with assms have a: "\<forall>row \<in> set rs. length row = length r" and b: "j < length r"
    and n: "length r = n"
    by auto
  from foldl_map2_nth [OF a b, of max] show ?thesis
    by (simp add: np_max_axis0_def rows foldl_max_Max n del: set_simps)
qed


lemma positions_3d_shape:
  fixes nd :: nat and arr :: contact_array
  defines "P \<equiv> (if nd = 2 then column_stack_zeros (array_rows arr) else array_rows arr)"
  shows "\<exists>n \<ge> 2. \<forall>row \<in> set P. length row = n"
    and "map (\<lambda>row. row ! 0) P = xs_of arr"
    and "map (\<lambda>row. row ! 1) P = ys_of arr"
    and "(P = []) = (xs_of arr = [])"
proof -
  show "\<exists>n \<ge> 2. \<forall>row \<in> set P. length row = n"
  proof (cases arr)
    case (Positions2D ps)
    show ?thesis
    proof (cases "nd = 2")
      case True
      then have "\<forall>row \<in> set P. length row = 3"
        by (auto simp: P_def Positions2D column_stack_zeros_def)
      then show ?thesis by (intro exI [of _ 3]) simp
    next
      case False
      then have "\<forall>row \<in> set P. length row = 2"
        by (auto simp: P_def Positions2D)
      then show ?thesis by (intro exI [of _ 2]) simp
    qed
  next
    case (Positions3D ps)
    show ?thesis
    proof (cases "nd = 2")
      case True
      then have "\<forall>row \<in> set P. length row = 4"
        by (auto simp: P_def Positions3D column_stack_zeros_def)
      then show ?thesis by (intro exI [of _ 4]) simp
    next
      case False
      then have "\<forall>row \<in> set P. length row = 3"
        by (auto simp: P_def Positions3D)
      then show ?thesis by (intro exI [of _ 3]) simp
    qed
  qed
  show "map (\<lambda>row. row ! 0) P = xs_of arr"
    by (cases arr) (auto simp: P_def column_stack_zeros_def split_beta nth_append)
  show "map (\<lambda>row. row ! 1) P = ys_of arr"
    by (cases arr) (auto simp: P_def column_stack_zeros_def split_beta nth_append)
  show "(P = []) = (xs_of arr = [])"
    by (cases arr) (auto simp: P_def column_stack_zeros_def)
qed

lemma basic_probe_shape_body_rectangle:
  assumes "contact_positions probe = Some arr" and "xs_of arr \<noteq> []"
  shows "basic_probe_shape_body probe thickness g =
     extrude_and_face (fallback_rectangle arr) (- thickness / 2) (thickness / 2) g"
proof -
  define P where "P = (if ndim probe = 2 then column_stack_zeros (array_rows arr)
                        else array_rows arr)"
  from positions_3d_shape [of "ndim probe" arr]
  obtain n where n: "2 \<le> n" and len: "\<forall>row \<in> set P. length row = n"
    and xs: "map (\<lambda>row. row ! 0) P = xs_of arr"
    and ys: "map (\<lambda>row. row ! 1) P = ys_of arr"
    and ne: "P \<noteq> []"
    unfolding P_def using assms(2) by auto
  from n have j0: "0 < n" and j1: "1 < n" by simp_all
  from np_min_axis0_cols [OF ne len j0] np_min_axis0_cols [OF ne len j1]
  obtain lo where lo: "np_min_axis0 P = Inr lo" "length lo = n"
    "lo ! 0 = Min (set (xs_of arr))" "lo ! Suc 0 = Min (set (ys_of arr))"
    unfolding xs ys by auto
  from np_max_axis0_cols [OF ne len j0] np_max_axis0_cols [OF ne len j1]
  obtain hi where hi: "np_max_axis0 P = Inr hi" "length hi = n"
    "hi ! 0 = Max (set (xs_of arr))" "hi ! Suc 0 = Max (set (ys_of arr))"
    unfolding xs ys by auto
  show ?thesis
    using n
    by (simp add: basic_probe_shape_body_def assms(1) P_def [symmetric] lo hi Let_def
        fallback_rectangle_def extrude_and_face_def)
qed

lemma basic_probe_shape_body_no_positions:
  assumes "contact_positions probe = None
           \<or> (\<exists>arr. contact_positions probe = Some arr \<and> xs_of arr = [])"
  shows "fst (basic_probe_shape_body probe thickness g) \<noteq> None
       \<and> snd (basic_probe_shape_body probe thickness g) = g"
  using assms
proof
  assume "contact_positions probe = None"
  then show ?thesis by (simp add: basic_probe_shape_body_def)
next
  assume "\<exists>arr. contact_positions probe = Some arr \<and> xs_of arr = []"
  then obtain arr where arr: "contact_positions probe = Some arr" and e: "xs_of arr = []"
    by blast
  from e positions_3d_shape(4) [of "ndim probe" arr]
  have "(if ndim probe = 2 then column_stack_zeros (array_rows arr) else array_rows arr) = []"
    by simp
  then show ?thesis
    by (simp add: basic_probe_shape_body_def arr np_min_axis0_def)
qed

lemma generate_probe_mesh_fallback:
  assumes "\<not> usable_contour probe"
  shows "generate_probe_mesh probe thickness contact_height add_contacts g =
     generate_basic_probe_shape probe thickness contact_height False new_generator"
  using assms
  by (auto simp: generate_probe_mesh_def usable_contour_def reset_eq Let_def
      split: option.splits)

lemma generate_probe_mesh_usable:
  assumes "usable_contour probe"
  shows "generate_probe_mesh probe thickness contact_height add_contacts g =
     (case the (probe_planar_contour probe) of
        Contour2D points \<Rightarrow>
          (True, snd (extrude_and_face points (- thickness / 2) (thickness / 2)
                        new_generator))
      | Contour3D points \<Rightarrow> (False, new_generator))"
proof -
  from assms obtain c where c: "probe_planar_contour probe = Some c" and l: "3 \<le> contour_len c"
    by (auto simp: usable_contour_def split: option.splits)
  show ?thesis
  proof (cases c)
    case (Contour2D points)
    with c l show ?thesis
      by (simp add: generate_probe_mesh_contour)
  next
    case (Contour3D points)
    with c l show ?thesis
      by (simp add: generate_probe_mesh_three_columns)
  qed
qed

lemma array_rows_empty: "(array_rows arr = []) = (xs_of arr = [])"
  by (cases arr) simp_all

lemma generate_probe_mesh_rectangle:
  assumes "\<not> usable_contour probe" and "contact_positions probe = Some arr"
    and "array_rows arr \<noteq> []"
  shows "generate_probe_mesh probe thickness contact_height add_contacts g =
     (True, snd (extrude_and_face (fallback_rectangle arr) (- thickness / 2) (thickness / 2)
                   new_generator))"
proof -
  from assms(3) have "xs_of arr \<noteq> []" by (simp add: array_rows_empty)
  from basic_probe_shape_body_rectangle [OF assms(2) this]
  show ?thesis
    by (simp add: generate_probe_mesh_fallback [OF assms(1)] generate_basic_probe_shape_def
        extrude_and_face_eq)
qed

lemma generate_probe_mesh_no_geometry:
  assumes "\<not> usable_contour probe"
    and "contact_positions probe = None
         \<or> (\<exists>arr. contact_positions probe = Some arr \<and> array_rows arr = [])"
  shows "generate_probe_mesh probe thickness contact_height add_contacts g =
     (False, new_generator)"
proof -
  from assms(2) have "contact_positions probe = None
           \<or> (\<exists>arr. contact_positions probe = Some arr \<and> xs_of arr = [])"
    by (simp add: array_rows_empty)
  from basic_probe_shape_body_no_positions [OF this, of thickness new_generator]
  show ?thesis
    by (auto simp: generate_probe_mesh_fallback [OF assms(1)] generate_basic_probe_shape_def
        split: prod.splits option.splits)
qed

lemma length_fallback_rectangle: "length (fallback_rectangle arr) = 4"
  by (simp add: fallback_rectangle_def Let_def)

lemma generate_probe_mesh_any_builder:
  "generate_probe_mesh probe thickness contact_height add_contacts g =
   generate_probe_mesh probe thickness contact_height' add_contacts' g'"
  by (cases "usable_contour probe")
     (simp_all add: generate_probe_mesh_usable generate_probe_mesh_fallback
       generate_basic_probe_shape_def)


lemma rectangle_faces:
  "extrude_and_face [(- 30, 30), (- 30, - 30), (30, - 30), (30, 30)] (- 10) 10 new_generator =
     (None, \<lparr>vertices = [(- 30, 30, - 10), (- 30, 30, 10), (- 30, - 30, - 10),
                (- 30, - 30, 10), (30, - 30, - 10), (30, - 30, 10), (30, 30, - 10),
                (30, 30, 10)],
             faces = [[7, 5, 3, 1], [2, 4, 6, 8], [1, 3, 4, 2], [3, 5, 6, 4],
                      [5, 7, 8, 6], [7, 1, 2, 8]],
             vertex_count = 8\<rparr>)"
  by (simp add: extrude_and_face_eq new_generator_def prism_vertices_def quad_def
      bottom_of_def top_of_def)

text \<open>
  Claim C6. For a probe without a usable contour and with at least one contact position,
  mesh generation succeeds with the extrusion of a rectangle of four corners: the
  bounding box of the x and y coordinates of the contacts, widened by exactly 30 on every
  side, in the order top-left, bottom-left, bottom-right, top-right. The mesh has 8
  vertices and 6 faces; for the single position \<open>(0, 0)\<close> the corners are
  \<open>(-30, 30)\<close>, \<open>(-30, -30)\<close>, \<open>(30, -30)\<close>, \<open>(30, 30)\<close>.
\<close>

theorem fallback_rectangle_mesh:
  assumes "\<not> usable_contour probe" and "contact_positions probe = Some arr"
    and "array_rows arr \<noteq> []"
  shows "generate_probe_mesh probe thickness contact_height add_contacts g =
           (True, snd (extrude_and_face (fallback_rectangle arr)
                         (- thickness / 2) (thickness / 2) new_generator))
    \<and> fallback_rectangle arr =
        [(Min (set (xs_of arr)) - 30, Max (set (ys_of arr)) + 30),
         (Min (set (xs_of arr)) - 30, Min (set (ys_of arr)) - 30),
         (Max (set (xs_of arr)) + 30, Min (set (ys_of arr)) - 30),
         (Max (set (xs_of arr)) + 30, Max (set (ys_of arr)) + 30)]
    \<and> length (vertices (snd (generate_probe_mesh probe thickness contact_height
                                 add_contacts g))) = 8
    \<and> length (faces (snd (generate_probe_mesh probe thickness contact_height
                              add_contacts g))) = 6
    \<and> (arr = Positions2D [(0, 0)] \<longrightarrow>
         fallback_rectangle arr = [(- 30, 30), (- 30, - 30), (30, - 30), (30, 30)])"
proof -
  note m = generate_probe_mesh_rectangle [OF assms, of thickness contact_height add_contacts g]
  have r: "fallback_rectangle arr =
        [(Min (set (xs_of arr)) - 30, Max (set (ys_of arr)) + 30),
         (Min (set (xs_of arr)) - 30, Min (set (ys_of arr)) - 30),
         (Max (set (xs_of arr)) + 30, Min (set (ys_of arr)) - 30),
         (Max (set (xs_of arr)) + 30, Max (set (ys_of arr)) + 30)]"
    by (simp add: fallback_rectangle_def Let_def)
  have v: "length (vertices (snd (generate_probe_mesh probe thickness contact_height
                                 add_contacts g))) = 8"
    unfolding m
    by (simp add: extrude_and_face_eq length_prism_vertices length_fallback_rectangle
        new_generator_def)
  have f: "length (faces (snd (generate_probe_mesh probe thickness contact_height
                              add_contacts g))) = 6"
    unfolding m
    by (simp add: extrude_and_face_eq length_fallback_rectangle new_generator_def)
  have s: "arr = Positions2D [(0, 0)] \<longrightarrow>
         fallback_rectangle arr = [(- 30, 30), (- 30, - 30), (30, - 30), (30, 30)]"
    by (simp add: fallback_rectangle_def)
  from m r v f s show ?thesis by blast
qed

theorem fallback_rectangle_mesh_witness:
  "\<not> usable_contour single_contact_probe
   \<and> contact_positions single_contact_probe = Some (Positions2D [(0, 0)])
   \<and> array_rows (Positions2D [(0, 0)]) \<noteq> []
   \<and> generate_probe_mesh single_contact_probe 20 2 False new_generator =
       (True, \<lparr>vertices = [(- 30, 30, - 10), (- 30, 30, 10), (- 30, - 30, - 10),
                (- 30, - 30, 10), (30, - 30, - 10), (30, - 30, 10), (30, 30, - 10),
                (30, 30, 10)],
             faces = [[7, 5, 3, 1], [2, 4, 6, 8], [1, 3, 4, 2], [3, 5, 6, 4],
                      [5, 7, 8, 6], [7, 1, 2, 8]],
             vertex_count = 8\<rparr>)"
proof -
  have h1: "\<not> usable_contour single_contact_probe"
    by (simp add: usable_contour_def single_contact_probe_def)
  have h2: "contact_positions single_contact_probe = Some (Positions2D [(0, 0)])"
    by (simp add: single_contact_probe_def)
  have h3: "array_rows (Positions2D [(0, 0)]) \<noteq> []"
    by simp
  from fallback_rectangle_mesh [OF h1 h2 h3, of 20 2 False new_generator]
  have "generate_probe_mesh single_contact_probe 20 2 False new_generator =
           (True, snd (extrude_and_face [(- 30, 30), (- 30, - 30), (30, - 30), (30, 30)]
                         (- 20 / 2) (20 / 2) new_generator))"
    by simp
  then have "generate_probe_mesh single_contact_probe 20 2 False new_generator =
       (True, \<lparr>vertices = [(- 30, 30, - 10), (- 30, 30, 10), (- 30, - 30, - 10),
                (- 30, - 30, 10), (30, - 30, - 10), (30, - 30, 10), (30, 30, - 10),
                (30, 30, 10)],
             faces = [[7, 5, 3, 1], [2, 4, 6, 8], [1, 3, 4, 2], [3, 5, 6, 4],
                      [5, 7, 8, 6], [7, 1, 2, 8]],
             vertex_count = 8\<rparr>)"
    by (simp add: rectangle_faces)
  with h1 h2 h3 show ?thesis by blast
qed

lemma generate_probe_obj_failed:
  assumes "fst (generate_probe_mesh probe thickness contact_height False new_generator) = False"
  shows "generate_probe_obj fs probe output_path thickness contact_height add_contacts =
     (False, fs)"
  using assms by (simp add: generate_probe_obj_def Let_def split_beta)

text \<open>
  Claim C7. For a probe with neither a usable contour nor any contact position (the
  positions are \<open>None\<close> or an array without rows), \<open>generate_probe_mesh\<close> catches
  the exception and returns \<open>False\<close>, with an empty mesh; \<open>generate_probe_obj\<close>
  returns \<open>False\<close> and writes no file. The failure is a returned value: the next
  probe, on the same builder and the same file system, is processed as if the failed
  one had never been seen.
\<close>

theorem no_geometry_fails:
  assumes "\<not> usable_contour probe"
    and "contact_positions probe = None
         \<or> (\<exists>arr. contact_positions probe = Some arr \<and> array_rows arr = [])"
  shows "generate_probe_mesh probe thickness contact_height add_contacts g =
           (False, new_generator)
    \<and> generate_probe_obj fs probe output_path thickness contact_height add_contacts =
           (False, fs)
    \<and> generate_probe_mesh other thickness' contact_height' add_contacts'
          (snd (generate_probe_mesh probe thickness contact_height add_contacts g)) =
        generate_probe_mesh other thickness' contact_height' add_contacts' new_generator
    \<and> generate_probe_obj
          (snd (generate_probe_obj fs probe output_path thickness contact_height add_contacts))
          other output_path' thickness' contact_height' add_contacts' =
        generate_probe_obj fs other output_path' thickness' contact_height' add_contacts'"
proof -
  have m: "generate_probe_mesh probe thickness contact_height add_contacts g =
           (False, new_generator)"
    using assms by (rule generate_probe_mesh_no_geometry)
  have "fst (generate_probe_mesh probe thickness contact_height False new_generator) = False"
    by (simp add: generate_probe_mesh_no_geometry [OF assms])
  then have obj: "generate_probe_obj fs probe output_path thickness contact_height add_contacts
      = (False, fs)"
    by (rule generate_probe_obj_failed)
  have nxt: "generate_probe_mesh other thickness' contact_height' add_contacts'
          (snd (generate_probe_mesh probe thickness contact_height add_contacts g)) =
        generate_probe_mesh other thickness' contact_height' add_contacts' new_generator"
    by (rule generate_probe_mesh_any_builder)
  have nxt_obj: "generate_probe_obj
          (snd (generate_probe_obj fs probe output_path thickness contact_height add_contacts))
          other output_path' thickness' contact_height' add_contacts' =
        generate_probe_obj fs other output_path' thickness' contact_height' add_contacts'"
    by (simp add: obj)
  from m obj nxt nxt_obj show ?thesis by blast
qed

theorem no_geometry_fails_witness:
  "\<not> usable_contour bare_probe
   \<and> contact_positions bare_probe = None
   \<and> generate_probe_mesh bare_probe 20 2 False new_generator = (False, new_generator)"
proof -
  have h1: "\<not> usable_contour bare_probe"
    by (simp add: usable_contour_def bare_probe_def)
  have h2: "contact_positions bare_probe = None"
    by (simp add: bare_probe_def)
  then have h2': "contact_positions bare_probe = None
         \<or> (\<exists>arr. contact_positions bare_probe = Some arr \<and> array_rows arr = [])"
    by simp
  from no_geometry_fails [OF h1 h2', of 20 2 False new_generator] h1 h2
  show ?thesis by blast
qed








section \<open>Facts about the serialisation\<close>

lemma digit_char_props:
  assumes "d < 10"
  shows "is_digit (digit_char d)" and "digit_val (digit_char d) = d"
proof -
  from assms have m: "(48 + d) mod 256 = 48 + d" by simp
  show "is_digit (digit_char d)"
    using assms by (simp add: is_digit_def digit_char_def m)
  show "digit_val (digit_char d) = d"
    by (simp add: digit_val_def digit_char_def m)
qed

lemma str_nat_digits: "list_all is_digit (str_nat n)"
proof (induction n rule: str_nat.induct)
  case (1 n)
  show ?case
  proof (cases "n < 10")
    case True
    then show ?thesis
      by (subst str_nat.simps) (simp add: digit_char_props)
  next
    case False
    with 1 have "list_all is_digit (str_nat (n div 10))" by simp
    moreover have "is_digit (digit_char (n mod 10))"
      by (rule digit_char_props) simp
    ultimately show ?thesis
      using False by (subst str_nat.simps) simp
  qed
qed

lemma str_nat_nonempty: "str_nat n \<noteq> []"
  by (subst str_nat.simps) simp

lemma str_nat_value: "foldl (\<lambda>a c. 10 * a + digit_val c) 0 (str_nat n) = n"
proof (induction n rule: str_nat.induct)
  case (1 n)
  show ?case
  proof (cases "n < 10")
    case True
    then show ?thesis
      by (subst str_nat.simps) (simp add: digit_char_props)
  next
    case False
    with 1 have "foldl (\<lambda>a c. 10 * a + digit_val c) 0 (str_nat (n div 10)) = n div 10"
      by simp
    moreover have "digit_val (digit_char (n mod 10)) = n mod 10"
      by (rule digit_char_props) simp
    ultimately show ?thesis
      using False by (subst str_nat.simps) simp
  qed
qed

lemma parse_nat_str_nat: "parse_nat (str_nat n) = Some n"
  by (simp add: parse_nat_def str_nat_digits str_nat_nonempty str_nat_value)

lemma length_str_nat: "0 < k \<Longrightarrow> n < 10 ^ k \<Longrightarrow> length (str_nat n) \<le> k"
proof (induction n arbitrary: k rule: str_nat.induct)
  case (1 n)
  show ?case
  proof (cases "n < 10")
    case True
    with 1(2) show ?thesis
      by (subst str_nat.simps) simp
  next
    case False
    obtain j where k: "k = Suc j" using 1(2) by (cases k) auto
    have j: "0 < j"
    proof (rule ccontr)
      assume "\<not> 0 < j"
      with k 1(3) False show False by simp
    qed
    from 1(3) k have "n div 10 < 10 ^ j"
      by (simp add: less_mult_imp_div_less mult.commute)
    with 1(1) False j have "length (str_nat (n div 10)) \<le> j" by simp
    then show ?thesis
      using False k by (subst str_nat.simps) simp
  qed
qed

lemma foldl_digits_zeros:
  "foldl (\<lambda>a c. 10 * a + digit_val c) 0 (replicate k CHR ''0'') = 0"
  by (induction k) (simp_all add: digit_val_def)

lemma zfill_str_nat:
  assumes "n < 1000000"
  shows "length (zfill 6 (str_nat n)) = 6" and "parse_nat (zfill 6 (str_nat n)) = Some n"
    and "list_all is_digit (zfill 6 (str_nat n))"
proof -
  have "n < 10 ^ 6" using assms by simp
  then have l: "length (str_nat n) \<le> 6"
    by (intro length_str_nat) simp_all
  then show "length (zfill 6 (str_nat n)) = 6"
    by (simp add: zfill_def)
  have z: "is_digit CHR ''0''" by (simp add: is_digit_def)
  show d: "list_all is_digit (zfill 6 (str_nat n))"
    using z str_nat_digits [of n] by (auto simp: zfill_def list_all_iff)
  have "zfill 6 (str_nat n) \<noteq> []"
    by (simp add: zfill_def str_nat_nonempty)
  then show "parse_nat (zfill 6 (str_nat n)) = Some n"
    using d by (simp add: parse_nat_def) (simp add: zfill_def foldl_digits_zeros str_nat_value)
qed

lemma is_digit_not_special:
  assumes "is_digit c"
  shows "c \<noteq> CHR '' ''" and "c \<noteq> CHR ''-''" and "c \<noteq> CHR ''.''" and "c \<noteq> newline"
  using assms by (auto simp: is_digit_def newline_def)

lemma parse_int_str_int: "parse_int (str_int i) = Some i"
proof (cases "i < 0")
  case True
  then show ?thesis
    by (simp add: parse_int_def str_int_def parse_nat_str_nat)
next
  case False
  have "is_digit (hd (str_nat (nat i)))"
    using str_nat_digits [of "nat i"] str_nat_nonempty [of "nat i"]
    by (cases "str_nat (nat i)") simp_all
  then have "hd (str_nat (nat i)) \<noteq> CHR ''-''"
    by (auto dest: is_digit_not_special)
  with False show ?thesis
    by (simp add: parse_int_def str_int_def parse_nat_str_nat)
qed

lemma split_on_nonempty: "split_on c s \<noteq> []"
  by (induction s) (auto split: list.splits)

lemma split_on_no_sep: "c \<notin> set w \<Longrightarrow> split_on c w = [w]"
  by (induction w) (auto split: list.splits)

lemma split_on_append:
  "c \<notin> set w \<Longrightarrow> split_on c (w @ c # rest) = w # split_on c rest"
  by (induction w) (auto split: list.splits simp: split_on_nonempty)

lemma words_join:
  assumes "\<forall>w \<in> set ws. w \<noteq> [] \<and> CHR '' '' \<notin> set w"
  shows "words (join '' '' ws) = ws"
  using assms
proof (induction "'' ''" ws rule: join.induct)
  case 1
  show ?case by (simp add: words_def)
next
  case (2 w)
  then show ?case by (simp add: words_def split_on_no_sep)
next
  case (3 w v ws)
  then have "words (join '' '' (v # ws)) = v # ws" by simp
  moreover from 3 have "CHR '' '' \<notin> set w" and "w \<noteq> []" by simp_all
  ultimately show ?case
    by (simp add: words_def split_on_append)
qed

lemma round_half_even_cases:
  fixes x :: real
  defines "f \<equiv> \<lfloor>x\<rfloor>" and "r \<equiv> x - of_int \<lfloor>x\<rfloor>"
  shows "round_half_even x =
           (if r < 1 / 2 then f else if 1 / 2 < r then f + 1 else if even f then f else f + 1)"
    and "0 \<le> r" and "r < 1" and "x = of_int f + r"
proof -
  show "round_half_even x =
           (if r < 1 / 2 then f else if 1 / 2 < r then f + 1 else if even f then f else f + 1)"
    by (simp add: round_half_even_def f_def r_def Let_def)
  show "0 \<le> r" unfolding r_def by linarith
  show "r < 1" unfolding r_def by linarith
  show "x = of_int f + r" unfolding r_def f_def by simp
qed

lemma round_half_even_close: "\<bar>real_of_int (round_half_even x) - x\<bar> \<le> 1 / 2"
proof -
  define f where "f = \<lfloor>x\<rfloor>"
  define r where "r = x - of_int \<lfloor>x\<rfloor>"
  note c = round_half_even_cases [of x, folded f_def r_def]
  consider "r < 1 / 2" | "1 / 2 < r" | "r = 1 / 2" by linarith
  then show ?thesis
  proof cases
    case 1
    then have "round_half_even x = f" by (simp add: c(1))
    then show ?thesis using c(2,4) 1 by simp
  next
    case 2
    then have "round_half_even x = f + 1" by (simp add: c(1))
    then show ?thesis using c(3,4) 2 by simp
  next
    case 3
    then have "round_half_even x = f \<or> round_half_even x = f + 1" by (simp add: c(1))
    then show ?thesis using c(4) 3 by auto
  qed
qed

lemma round_half_even_nonneg:
  assumes "0 \<le> x"
  shows "0 \<le> round_half_even x"
proof -
  from assms have "0 \<le> \<lfloor>x\<rfloor>" by simp
  then show ?thesis
    by (simp add: round_half_even_def Let_def)
qed

lemma round_half_even_uminus: "round_half_even (- x) = - round_half_even x"
proof (cases "x \<in> \<int>")
  case True
  then obtain k where "x = of_int k" by (auto elim: Ints_cases)
  then show ?thesis
    by (simp add: round_half_even_def)
next
  case False
  define f where "f = \<lfloor>x\<rfloor>"
  define r where "r = x - of_int \<lfloor>x\<rfloor>"
  note c = round_half_even_cases [of x, folded f_def r_def]
  from False have "x \<noteq> of_int f" by (metis Ints_of_int)
  with c(4) have r0: "r \<noteq> 0" by auto
  with c(2) have rpos: "0 < r" by simp
  have fl: "\<lfloor>- x\<rfloor> = - f - 1"
  proof -
    have "of_int (- f - 1) \<le> - x" using c(3,4) by simp
    moreover have "- x < of_int (- f - 1) + 1" using rpos c(4) by simp
    ultimately show ?thesis by (simp add: floor_eq_iff)
  qed
  have r': "- x - real_of_int (- f - 1) = 1 - r"
    using c(4) by simp
  have m: "round_half_even (- x) =
      (if 1 - r < 1 / 2 then - f - 1 else if 1 / 2 < 1 - r then - f - 1 + 1
       else if even (- f - 1) then - f - 1 else - f - 1 + 1)"
    by (simp only: round_half_even_def Let_def fl r')
  consider "r < 1 / 2" | "1 / 2 < r" | "r = 1 / 2" by linarith
  then show ?thesis
  proof cases
    case 1
    then show ?thesis by (simp add: m c(1))
  next
    case 2
    then show ?thesis by (simp add: m c(1))
  next
    case 3
    then show ?thesis by (simp add: m c(1))
  qed
qed

lemma to_6_decimals_close: "\<bar>to_6_decimals x - x\<bar> \<le> 1 / 2000000"
proof -
  define a where "a = real_of_int (round_half_even (x * 1000000))"
  have b: "\<bar>a - x * 1000000\<bar> \<le> 1 / 2"
    unfolding a_def by (rule round_half_even_close)
  have "to_6_decimals x - x = (a - x * 1000000) / 1000000"
    by (simp add: to_6_decimals_def a_def diff_divide_distrib)
  then have "\<bar>to_6_decimals x - x\<bar> = \<bar>(a - x * 1000000) / 1000000\<bar>"
    by (simp only:)
  also have "\<dots> = \<bar>a - x * 1000000\<bar> / 1000000"
    unfolding abs_divide by simp
  also have "\<dots> \<le> (1 / 2) / 1000000"
    using b by (rule divide_right_mono) simp
  finally show ?thesis by simp
qed

lemma plain_char_not_sep:
  assumes "plain_char c"
  shows "c \<noteq> CHR '' ''" and "c \<noteq> newline"
  using assms by (auto simp: plain_char_def is_digit_def newline_def)

lemma str_nat_no_point: "CHR ''.'' \<notin> set (str_nat n)"
  using str_nat_digits [of n] by (auto simp: list_all_iff dest: is_digit_not_special)

lemma hd_str_nat: "hd (str_nat n) \<noteq> CHR ''-''"
proof -
  have "is_digit (hd (str_nat n))"
    using str_nat_digits [of n] str_nat_nonempty [of n]
    by (cases "str_nat n") simp_all
  then show ?thesis by (auto dest: is_digit_not_special)
qed

lemma parse_unsigned_decimal_digits:
  assumes "b < 1000000"
  shows "parse_unsigned_decimal (str_nat a @ ''.'' @ zfill 6 (str_nat b))
           = Some (real a + real b / 1000000)"
proof -
  have z: "CHR ''.'' \<notin> set (zfill 6 (str_nat b))"
    using zfill_str_nat(3) [OF assms] by (auto simp: list_all_iff dest: is_digit_not_special)
  have "split_on CHR ''.'' (str_nat a @ ''.'' @ zfill 6 (str_nat b))
          = [str_nat a, zfill 6 (str_nat b)]"
    using split_on_append [OF str_nat_no_point, of a "zfill 6 (str_nat b)"]
      split_on_no_sep [OF z]
    by simp
  then show ?thesis
    by (simp add: parse_unsigned_decimal_def parse_nat_str_nat zfill_str_nat [OF assms])
qed

lemma parse_decimal_format_6f:
  "parse_decimal (format_6f v) = Some (to_6_decimals (float_value v))"
proof -
  define x where "x = float_value v"
  define n where "n = nat (round_half_even (\<bar>x\<bar> * 1000000))"
  define u where "u = str_nat (n div 1000000) @ ''.'' @ zfill 6 (str_nat (n mod 1000000))"
  have f: "format_6f v = (if x < 0 \<or> v = NegativeZero then ''-'' else []) @ u"
    by (simp add: format_6f_def x_def n_def u_def Let_def)
  have "parse_unsigned_decimal u
          = Some (real (n div 1000000) + real (n mod 1000000) / 1000000)"
    unfolding u_def by (rule parse_unsigned_decimal_digits) simp
  moreover have "real (n div 1000000) + real (n mod 1000000) / 1000000 = real n / 1000000"
  proof -
    have "real n = real (n div 1000000 * 1000000 + n mod 1000000)" by simp
    also have "\<dots> = real (n div 1000000) * 1000000 + real (n mod 1000000)"
      by (simp only: of_nat_add of_nat_mult of_nat_numeral)
    finally show ?thesis by (simp add: add_divide_distrib)
  qed
  ultimately have pu: "parse_unsigned_decimal u = Some (real n / 1000000)"
    by simp
  have nn: "0 \<le> round_half_even (\<bar>x\<bar> * 1000000)"
    by (rule round_half_even_nonneg) simp
  then have rn: "real n = real_of_int (round_half_even (\<bar>x\<bar> * 1000000))"
    by (simp add: n_def)
  have hu: "u \<noteq> []" "hd u \<noteq> CHR ''-''"
    using hd_str_nat [of "n div 1000000"] str_nat_nonempty [of "n div 1000000"]
    by (simp_all add: u_def)
  consider (negative) "x < 0" | (zero) "v = NegativeZero" | (plain) "\<not> x < 0" "v \<noteq> NegativeZero"
    by blast
  then have "parse_decimal (format_6f v) = Some (to_6_decimals x)"
  proof cases
    case negative
    then have "\<bar>x\<bar> * 1000000 = - (x * 1000000)" by simp
    then have "round_half_even (\<bar>x\<bar> * 1000000) = - round_half_even (x * 1000000)"
      by (simp only: round_half_even_uminus)
    then have "to_6_decimals x = - (real n / 1000000)"
      by (simp add: to_6_decimals_def rn)
    with negative show ?thesis
      by (simp add: f parse_decimal_def pu)
  next
    case zero
    then have x0: "x = 0" by (simp add: x_def)
    then have "n = 0" by (simp add: n_def round_half_even_def)
    moreover have "to_6_decimals x = 0"
      by (simp add: x0 to_6_decimals_def round_half_even_def)
    moreover have "format_6f v = CHR ''-'' # u"
      unfolding f using zero by simp
    ultimately show ?thesis
      by (simp add: parse_decimal_def pu)
  next
    case plain
    then have "\<bar>x\<bar> = x" by simp
    then have "to_6_decimals x = real n / 1000000"
      by (simp add: to_6_decimals_def rn)
    with plain hu show ?thesis
      by (simp add: f parse_decimal_def pu)
  qed
  then show ?thesis
    by (simp add: x_def)
qed

lemma format_6f_plain: "list_all plain_char (format_6f x)" and format_6f_nonempty: "format_6f x \<noteq> []"
proof -
  have a: "list_all plain_char (str_nat n)" for n
    using str_nat_digits [of n] by (auto simp: list_all_iff plain_char_def)
  have "list_all plain_char (zfill 6 (str_nat n))" for n
    using a [of n] by (auto simp: zfill_def list_all_iff plain_char_def is_digit_def)
  with a show "list_all plain_char (format_6f x)"
    by (simp add: format_6f_def Let_def plain_char_def)
  show "format_6f x \<noteq> []"
    by (simp add: format_6f_def Let_def)
qed

lemma str_int_plain: "list_all plain_char (str_int i)" and str_int_nonempty: "str_int i \<noteq> []"
proof -
  have a: "list_all plain_char (str_nat n)" for n
    using str_nat_digits [of n] by (auto simp: list_all_iff plain_char_def)
  then show "list_all plain_char (str_int i)"
    by (simp add: str_int_def plain_char_def)
  show "str_int i \<noteq> []"
    by (simp add: str_int_def str_nat_nonempty)
qed

lemma plain_word:
  assumes "list_all plain_char w"
  shows "CHR '' '' \<notin> set w" and "newline \<notin> set w"
  using assms by (auto simp: list_all_iff dest: plain_char_not_sep)

lemma join_no_newline:
  assumes "\<forall>w \<in> set ws. newline \<notin> set w"
  shows "newline \<notin> set (join '' '' ws)"
  using assms
  by (induction "'' ''" ws rule: join.induct) (auto simp: newline_def)

lemma those_map_Some: "those (map (\<lambda>x. Some (f x)) xs) = Some (map f xs)"
  by (induction xs) simp_all

lemma parse_face_join: "parse_face (join '' '' (map str_int face)) = Some face"
proof -
  have "words (join '' '' (map str_int face)) = map str_int face"
    using plain_word(1) [OF str_int_plain] by (intro words_join) (auto simp: str_int_nonempty)
  then show ?thesis
    using those_map_Some [of "\<lambda>i. i" face]
    by (simp add: parse_face_def comp_def parse_int_str_int)
qed

lemma parse_vertex_join:
  "parse_vertex (format_6f x @ '' '' @ format_6f y @ '' '' @ format_6f z)
     = Some (to_6_decimals (float_value x), to_6_decimals (float_value y),
             to_6_decimals (float_value z))"
proof -
  have j: "format_6f x @ '' '' @ format_6f y @ '' '' @ format_6f z
      = join '' '' [format_6f x, format_6f y, format_6f z]"
    by simp
  have "words (join '' '' [format_6f x, format_6f y, format_6f z])
      = [format_6f x, format_6f y, format_6f z]"
    using plain_word(1) [OF format_6f_plain] by (intro words_join) (auto simp: format_6f_nonempty)
  then show ?thesis
    unfolding j by (simp add: parse_vertex_def parse_decimal_format_6f)
qed

lemma split_lines:
  assumes "\<forall>l \<in> set ls. newline \<notin> set l"
  shows "split_on newline (concat (map (\<lambda>l. l @ [newline]) ls) @ rest)
           = ls @ split_on newline rest"
  using assms by (induction ls) (simp_all add: split_on_append)

lemma obj_text_lines:
  "obj_text g probe_name =
     concat (map (\<lambda>l. l @ [newline])
       (header_lines g probe_name @ map vertex_body (vertices g) @ [[]]
          @ map face_body (faces g)))"
proof -
  have v: "concat (map vertex_line vs) = concat (map (\<lambda>l. l @ [newline]) (map vertex_body vs))"
    for vs
    by (induction vs) (simp_all add: vertex_line_def vertex_body_def split_beta)
  have f: "concat (map face_line fs) = concat (map (\<lambda>l. l @ [newline]) (map face_body fs))"
    for fs
    by (induction fs) (simp_all add: face_line_def face_body_def)
  show ?thesis
    by (simp add: obj_text_def header_text_def header_lines_def v f)
qed

lemma vertex_body_no_newline: "newline \<notin> set (vertex_body v)"
proof -
  obtain x y z where v: "v = (x, y, z)" by (cases v)
  show ?thesis
    using plain_word(2) [OF format_6f_plain]
    by (simp add: v vertex_body_def) (simp add: newline_def)
qed

lemma face_body_no_newline: "newline \<notin> set (face_body f)"
proof -
  have "newline \<notin> set (join '' '' (map str_int f))"
    using plain_word(2) [OF str_int_plain] by (intro join_no_newline) auto
  then show ?thesis
    by (simp add: face_body_def) (simp add: newline_def)
qed

lemma str_nat_no_newline: "newline \<notin> set (str_nat n)"
  using str_nat_digits [of n] by (auto simp: list_all_iff dest: is_digit_not_special)

lemma header_lines_no_newline:
  assumes "newline \<notin> set probe_name"
  shows "\<forall>l \<in> set (header_lines g probe_name). newline \<notin> set l"
  using assms str_nat_no_newline
  by (simp add: header_lines_def) (simp add: newline_def)

lemma obj_text_split:
  assumes "newline \<notin> set probe_name"
  shows "split_on newline (obj_text g probe_name) =
     header_lines g probe_name @ map vertex_body (vertices g) @ [[]]
       @ map face_body (faces g) @ [[]]"
proof -
  have "\<forall>l \<in> set (header_lines g probe_name @ map vertex_body (vertices g) @ [[]]
          @ map face_body (faces g)). newline \<notin> set l"
    using header_lines_no_newline [OF assms, of g] vertex_body_no_newline face_body_no_newline
    by auto
  from split_lines [OF this, of "[]"] show ?thesis
    by (simp add: obj_text_lines)
qed

lemma parse_lines_skip:
  assumes "take 2 l \<noteq> ''v ''" and "take 2 l \<noteq> ''f ''"
  shows "parse_lines (l # ls) = parse_lines ls"
  using assms by (simp split: option.splits)

lemma parse_lines_vertex:
  "parse_lines (vertex_body v # ls) =
     (case parse_lines ls of
        None \<Rightarrow> None
      | Some (a, b) \<Rightarrow> Some (round_vertex v # a, b))"
proof -
  obtain x y z where v: "v = (x, y, z)" by (cases v)
  have t: "take 2 (vertex_body (x, y, z)) = ''v ''"
    and d: "drop 2 (vertex_body (x, y, z))
              = format_6f x @ '' '' @ format_6f y @ '' '' @ format_6f z"
    by (simp_all add: vertex_body_def)
  show ?thesis
    unfolding v parse_lines.simps t d parse_vertex_join
    by (simp add: round_vertex_def split: option.splits)
qed

lemma parse_lines_vertices:
  "parse_lines (map vertex_body vs @ ls) =
     (case parse_lines ls of
        None \<Rightarrow> None
      | Some (a, b) \<Rightarrow> Some (map round_vertex vs @ a, b))"
proof (induction vs)
  case Nil
  show ?case by (simp split: option.splits)
next
  case (Cons v vs)
  show ?case
    by (simp add: Cons.IH parse_lines_vertex del: parse_lines.simps split: option.splits)
qed

lemma parse_lines_face:
  "parse_lines (face_body f # ls) =
     (case parse_lines ls of
        None \<Rightarrow> None
      | Some (a, b) \<Rightarrow> Some (a, f # b))"
proof -
  have t: "take 2 (face_body f) = ''f ''" and n: "(''f '' = ''v '') = False"
    and d: "drop 2 (face_body f) = join '' '' (map str_int f)"
    by (simp_all add: face_body_def)
  show ?thesis
    unfolding parse_lines.simps t d n parse_face_join
    by (simp split: option.splits)
qed

lemma parse_lines_faces:
  "parse_lines (map face_body fs @ ls) =
     (case parse_lines ls of
        None \<Rightarrow> None
      | Some (a, b) \<Rightarrow> Some (a, fs @ b))"
proof (induction fs)
  case Nil
  show ?case by (simp split: option.splits)
next
  case (Cons f fs)
  show ?case
    by (simp add: Cons.IH parse_lines_face del: parse_lines.simps split: option.splits)
qed

lemma parse_lines_header: "parse_lines (header_lines g probe_name @ ls) = parse_lines ls"
  by (simp add: header_lines_def parse_lines_skip del: parse_lines.simps)

lemma parse_obj_obj_text:
  assumes "newline \<notin> set probe_name"
  shows "parse_obj (obj_text g probe_name) = Some (map round_vertex (vertices g), faces g)"
proof -
  have e: "parse_lines [[]] = Some ([], [])"
    by simp
  have f: "parse_lines (map face_body (faces g) @ [[]]) = Some ([], faces g)"
    by (simp only: parse_lines_faces e) simp
  have b: "parse_lines ([] # map face_body (faces g) @ [[]]) = Some ([], faces g)"
    using f by (simp add: parse_lines_skip del: parse_lines.simps)
  have v: "parse_lines (map vertex_body (vertices g) @ [] # map face_body (faces g) @ [[]])
      = Some (map round_vertex (vertices g), faces g)"
    by (simp only: parse_lines_vertices b) simp
  show ?thesis
    unfolding parse_obj_def obj_text_split [OF assms] parse_lines_header
    using v by simp
qed

lemma parse_vertex_injected: "parse_vertex ''1.0 2.0 3.0'' = Some (1, 2, 3)"
  by (simp add: parse_vertex_def words_def parse_decimal_def parse_unsigned_decimal_def
      parse_nat_def is_digit_def digit_val_def)

lemma obj_text_injected_split:
  "split_on newline (obj_text g injecting_name) =
     ''# Probe: x'' # ''v 1.0 2.0 3.0'' # tl (header_lines g []) @ map vertex_body (vertices g)
       @ [[]] @ map face_body (faces g) @ [[]]"
proof -
  let ?ls = "tl (header_lines g []) @ map vertex_body (vertices g) @ [[]]
       @ map face_body (faces g)"
  have t: "obj_text g injecting_name =
      concat (map (\<lambda>l. l @ [newline]) (''# Probe: x'' # ''v 1.0 2.0 3.0'' # ?ls))"
    by (simp add: obj_text_lines header_lines_def injecting_name_def)
  have "\<forall>l \<in> set (''# Probe: x'' # ''v 1.0 2.0 3.0'' # ?ls). newline \<notin> set l"
    using vertex_body_no_newline face_body_no_newline str_nat_no_newline
    by (auto simp: header_lines_def newline_def)
  from split_lines [OF this, of "[]"] show ?thesis
    unfolding t by simp
qed

lemma parse_obj_injected:
  "parse_obj (obj_text g injecting_name) =
     Some ((1, 2, 3) # map round_vertex (vertices g), faces g)"
proof -
  have e: "parse_lines [[]] = Some ([], [])"
    by simp
  have f: "parse_lines (map face_body (faces g) @ [[]]) = Some ([], faces g)"
    by (simp only: parse_lines_faces e) simp
  have b: "parse_lines ([] # map face_body (faces g) @ [[]]) = Some ([], faces g)"
    using f by (simp add: parse_lines_skip del: parse_lines.simps)
  have v: "parse_lines (map vertex_body (vertices g) @ [] # map face_body (faces g) @ [[]])
      = Some (map round_vertex (vertices g), faces g)"
    by (simp only: parse_lines_vertices b) simp
  have h: "parse_lines (tl (header_lines g []) @ map vertex_body (vertices g)
      @ [] # map face_body (faces g) @ [[]]) = Some (map round_vertex (vertices g), faces g)"
    using v by (simp add: header_lines_def parse_lines_skip del: parse_lines.simps)
  have i: "parse_lines (''v 1.0 2.0 3.0'' # tl (header_lines g []) @ map vertex_body (vertices g)
      @ [] # map face_body (faces g) @ [[]])
      = Some ((1, 2, 3) # map round_vertex (vertices g), faces g)"
    unfolding parse_lines.simps h by (simp add: parse_vertex_injected)
  have "parse_lines (''# Probe: x'' # ''v 1.0 2.0 3.0'' # tl (header_lines g [])
      @ map vertex_body (vertices g) @ [] # map face_body (faces g) @ [[]])
      = Some ((1, 2, 3) # map round_vertex (vertices g), faces g)"
    using i by (simp add: parse_lines_skip del: parse_lines.simps)
  then show ?thesis
    by (simp add: parse_obj_def obj_text_injected_split)
qed

lemma read_obj_save_obj:
  assumes "can_open fs filepath"
  shows "read_obj (snd (save_obj fs filepath probe_name g)) filepath =
     parse_obj (obj_text g probe_name)"
  using assms by (simp add: read_obj_def save_obj_def)

lemma str_nat_small: "n < 10 \<Longrightarrow> str_nat n = [digit_char n]"
  by (subst str_nat.simps) simp

lemma str_nat_step: "10 \<le> n \<Longrightarrow> str_nat n = str_nat (n div 10) @ [digit_char (n mod 10)]"
  by (subst str_nat.simps) simp

lemma digit_chars:
  "char_of (48 :: nat) = CHR ''0''" "char_of (49 :: nat) = CHR ''1''"
  "char_of (50 :: nat) = CHR ''2''" "char_of (51 :: nat) = CHR ''3''"
  "char_of (52 :: nat) = CHR ''4''" "char_of (53 :: nat) = CHR ''5''"
  "char_of (54 :: nat) = CHR ''6''" "char_of (55 :: nat) = CHR ''7''"
  "char_of (56 :: nat) = CHR ''8''" "char_of (57 :: nat) = CHR ''9''"
  by (simp_all add: char_of_def bit_simps)

lemma replicate_zeros: "replicate 5 CHR ''0'' = ''00000''"
  by (simp add: numeral_eq_Suc)

lemma sample_roundings:
  "nat (round_half_even (\<bar>0\<bar> * 1000000)) = 0"
  "nat (round_half_even (\<bar>5 / 2\<bar> * 1000000)) = 2500000"
  "nat (round_half_even (\<bar>- 25 / 2\<bar> * 1000000)) = 12500000"
  by (simp_all add: round_half_even_def Let_def)

lemma sample_digits:
  "str_nat 0 = ''0''" "str_nat 1 = ''1''" "str_nat 2 = ''2''" "str_nat 3 = ''3''"
  "str_nat 12 = ''12''" "str_nat 500000 = ''500000''" "str_nat (Suc 0) = ''1''"
  by (simp_all add: str_nat_small str_nat_step digit_char_def digit_chars)

lemma sample_numbers:
  "format_6f NegativeZero = ''-0.000000''"
  "format_6f (PyFloat (5 / 2)) = ''2.500000''"
  "format_6f (PyFloat (- 25 / 2)) = ''-12.500000''"
  unfolding format_6f_def Let_def float_value.simps sample_roundings
  by (simp_all add: sample_digits zfill_def replicate_zeros)

lemma sample_text:
  "obj_text sample_mesh ''probe'' =
     ''# Probe: probe'' @ [newline]
     @ ''# Generated by ProbeOBJGenerator'' @ [newline]
     @ ''# Vertices: 1'' @ [newline]
     @ ''# Faces: 1'' @ [newline, newline]
     @ ''v -0.000000 2.500000 -12.500000'' @ [newline, newline]
     @ ''f 3 2 1'' @ [newline]"
  by (simp add: obj_text_def header_text_def sample_mesh_def vertex_line_def face_line_def
      sample_numbers sample_numbers(3) [simplified] str_int_def sample_digits)

text \<open>
  Claim C8, as stated, fails for a display name that holds a line break: the rest of the
  name becomes a line of its own in the header, and a name that goes on with
  \<open>v 1.0 2.0 3.0\<close> puts a vertex into the file that the mesh does not have.
\<close>

theorem name_with_line_break_counterexample:
  "newline \<in> set injecting_name
   \<and> read_obj (snd (save_obj empty_file_system ''mesh.obj'' injecting_name sample_mesh))
       ''mesh.obj''
       = Some ((1, 2, 3) # map round_vertex (vertices sample_mesh), faces sample_mesh)
   \<and> read_obj (snd (save_obj empty_file_system ''mesh.obj'' injecting_name sample_mesh))
       ''mesh.obj''
       \<noteq> Some (map round_vertex (vertices sample_mesh), faces sample_mesh)"
proof -
  have o: "can_open empty_file_system ''mesh.obj''"
    by (simp add: empty_file_system_def)
  have n: "newline \<in> set injecting_name"
    by (simp add: injecting_name_def)
  show ?thesis
    unfolding read_obj_save_obj [OF o] parse_obj_injected using n by simp
qed

text \<open>
  Claim C8, amended. For every mesh and every display name without a line break,
  \<open>save_obj\<close> writes, where the file can be opened, the header followed by one line
  per vertex (\<open>v \<close> and the three coordinates with six decimals), an empty line, and
  one line per face (\<open>f \<close> and its indices separated by spaces), in the order of
  insertion, and returns \<open>True\<close>; where it cannot, it returns \<open>False\<close> and writes
  nothing. Reading the file back gives every vertex with its coordinates rounded to six
  decimals, each within half a unit of the sixth decimal of the original, and exactly
  the faces, in the same order.
\<close>

theorem obj_round_trip:
  assumes "newline \<notin> set probe_name"
  shows "save_obj fs filepath probe_name g =
           (if can_open fs filepath
            then (True, fs\<lparr>file_content :=
                    (file_content fs)(filepath \<mapsto> obj_text g probe_name)\<rparr>)
            else (False, fs))
    \<and> split_on newline (obj_text g probe_name) =
           header_lines g probe_name @ map vertex_body (vertices g) @ [[]]
             @ map face_body (faces g) @ [[]]
    \<and> parse_obj (obj_text g probe_name) = Some (map round_vertex (vertices g), faces g)
    \<and> (can_open fs filepath \<longrightarrow>
          read_obj (snd (save_obj fs filepath probe_name g)) filepath =
            Some (map round_vertex (vertices g), faces g))
    \<and> (\<forall>x. \<bar>to_6_decimals x - x\<bar> \<le> 1 / 2000000)"
  using obj_text_split [OF assms, of g] parse_obj_obj_text [OF assms, of g]
    to_6_decimals_close read_obj_save_obj [of fs filepath probe_name g]
    save_obj_def [of fs filepath probe_name g]
  by simp

theorem obj_round_trip_witness:
  "newline \<notin> set ''probe''
   \<and> can_open empty_file_system ''mesh.obj''
   \<and> save_obj empty_file_system ''mesh.obj'' ''probe'' sample_mesh =
       (True, empty_file_system\<lparr>file_content :=
          (file_content empty_file_system)(''mesh.obj'' \<mapsto> obj_text sample_mesh ''probe'')\<rparr>)
   \<and> read_obj (snd (save_obj empty_file_system ''mesh.obj'' ''probe'' sample_mesh)) ''mesh.obj''
       = Some (map round_vertex (vertices sample_mesh), faces sample_mesh)
   \<and> obj_text sample_mesh ''probe'' =
       ''# Probe: probe'' @ [newline]
       @ ''# Generated by ProbeOBJGenerator'' @ [newline]
       @ ''# Vertices: 1'' @ [newline]
       @ ''# Faces: 1'' @ [newline, newline]
       @ ''v -0.000000 2.500000 -12.500000'' @ [newline, newline]
       @ ''f 3 2 1'' @ [newline]"
proof -
  have h: "newline \<notin> set ''probe''"
    by (simp add: newline_def)
  have o: "can_open empty_file_system ''mesh.obj''"
    by (simp add: empty_file_system_def)
  note t = obj_round_trip [OF h, of empty_file_system "''mesh.obj''" sample_mesh]
  from t have "save_obj empty_file_system ''mesh.obj'' ''probe'' sample_mesh =
           (if can_open empty_file_system ''mesh.obj''
            then (True, empty_file_system\<lparr>file_content :=
                    (file_content empty_file_system)
                      (''mesh.obj'' \<mapsto> obj_text sample_mesh ''probe'')\<rparr>)
            else (False, empty_file_system))"
    by blast
  with o have a: "save_obj empty_file_system ''mesh.obj'' ''probe'' sample_mesh =
       (True, empty_file_system\<lparr>file_content :=
          (file_content empty_file_system)(''mesh.obj'' \<mapsto> obj_text sample_mesh ''probe'')\<rparr>)"
    by (simp only: if_True)
  from t o have b: "read_obj (snd (save_obj empty_file_system ''mesh.obj'' ''probe'' sample_mesh))
       ''mesh.obj'' = Some (map round_vertex (vertices sample_mesh), faces sample_mesh)"
    by blast
  from h o a b sample_text show ?thesis
    by blast
qed

end
